theory Spec2Isabelle
  imports Main "HOL-Library.Word"
begin

section \<open>Strings of the server\<close>

text \<open>
  A JavaScript string is a sequence of 16-bit code units; \<open>length\<close>, indexing,
  \<open>indexOf\<close>, \<open>substring\<close> and a regular expression without the \<open>u\<close> flag all
  count and read code units.  \<open>js\<close> writes a literal of the source.
\<close>

type_synonym cu = "16 word"
type_synonym jsstring = "cu list"
type_synonym uri = jsstring

definition js :: "string \<Rightarrow> jsstring" where
  "js s = map (\<lambda>c. word_of_nat (of_char c)) s"

definition LF :: cu where "LF = 0x0A"
definition CR :: cu where "CR = 0x0D"

text \<open>The class \<open>[a-zA-Z0-9_$]\<close> of the source's regular expressions.\<close>

definition is_ident :: "cu \<Rightarrow> bool" where
  "is_ident c \<longleftrightarrow>
     (0x61 \<le> c \<and> c \<le> 0x7A) \<or> (0x41 \<le> c \<and> c \<le> 0x5A) \<or> (0x30 \<le> c \<and> c \<le> 0x39)
     \<or> c = 0x5F \<or> c = 0x24"

text \<open>The word characters \<open>\w\<close> that decide the assertion \<open>\b\<close>: \<open>[A-Za-z0-9_]\<close>.\<close>

definition is_word :: "cu \<Rightarrow> bool" where
  "is_word c \<longleftrightarrow>
     (0x41 \<le> c \<and> c \<le> 0x5A) \<or> (0x61 \<le> c \<and> c \<le> 0x7A) \<or> (0x30 \<le> c \<and> c \<le> 0x39)
     \<or> c = 0x5F"

text \<open>The class \<open>\s\<close>: the white space and line terminator code units of ECMAScript.\<close>

definition is_space :: "cu \<Rightarrow> bool" where
  "is_space c \<longleftrightarrow>
     (0x09 \<le> c \<and> c \<le> 0x0D) \<or> c = 0x20 \<or> c = 0xA0 \<or> c = 0x1680
     \<or> (0x2000 \<le> c \<and> c \<le> 0x200A) \<or> c = 0x2028 \<or> c = 0x2029 \<or> c = 0x202F
     \<or> c = 0x205F \<or> c = 0x3000 \<or> c = 0xFEFF"

subsection \<open>\<open>text.split(/\r?\n/g)\<close>\<close>

text \<open>
  The separator is a line feed, or a carriage return directly followed by a line feed;
  a carriage return alone stays in its line.  The result always has at least one line.
\<close>

fun cons_first :: "cu \<Rightarrow> jsstring list \<Rightarrow> jsstring list" where
  "cons_first c [] = [[c]]"
| "cons_first c (l # ls) = (c # l) # ls"

fun split_lines :: "jsstring \<Rightarrow> jsstring list" where
  "split_lines [] = [[]]"
| "split_lines (c # cs) =
     (if c = LF then [] # split_lines cs
      else if c = CR then
        (case cs of
           [] \<Rightarrow> cons_first c (split_lines cs)
         | d # ds \<Rightarrow> if d = LF then [] # split_lines ds else cons_first c (split_lines cs))
      else cons_first c (split_lines cs))"

subsection \<open>\<open>indexOf\<close> and \<open>substring\<close>\<close>

text \<open>
  \<open>s.indexOf(w)\<close> is the least index at which \<open>w\<close> starts in \<open>s\<close>, and \<open>-1\<close> when there
  is none.
\<close>

fun index_of :: "jsstring \<Rightarrow> jsstring \<Rightarrow> nat option" where
  "index_of [] w = (if w = [] then Some 0 else None)"
| "index_of (x # xs) w =
     (if take (length w) (x # xs) = w then Some 0 else map_option Suc (index_of xs w))"

definition indexOf :: "jsstring \<Rightarrow> jsstring \<Rightarrow> int" where
  "indexOf s w = (case index_of s w of None \<Rightarrow> - 1 | Some k \<Rightarrow> int k)"

text \<open>
  \<open>s.substring(a, b)\<close> clamps both arguments to \<open>[0, length]\<close> and swaps them when the
  first is the larger.
\<close>

definition clamp_index :: "jsstring \<Rightarrow> int \<Rightarrow> nat" where
  "clamp_index s a = min (nat a) (length s)"

definition substring :: "jsstring \<Rightarrow> int \<Rightarrow> int \<Rightarrow> jsstring" where
  "substring s a b =
     (let a' = clamp_index s a; b' = clamp_index s b;
          lo = min a' b'; hi = max a' b'
      in take (hi - lo) (drop lo s))"

text \<open>
  \<open>xs[i]\<close> on an array or a string: \<open>undefined\<close> (here \<open>None\<close>) outside \<open>[0, length)\<close>.
\<close>

definition js_nth :: "'a list \<Rightarrow> int \<Rightarrow> 'a option" where
  "js_nth xs i = (if 0 \<le> i \<and> i < int (length xs) then Some (xs ! nat i) else None)"

subsection \<open>Numbers\<close>

text \<open>
  A line, a character and every counter of the source is a number of the language, a
  binary64 value; here the integers among them.  Comparisons are exact.  \<open>e++\<close> and
  \<open>e--\<close> round the exact result to the nearest value with 53 significant bits, ties
  to the even one: exact up to \<open>2^53\<close> in size, and beyond that possibly the operand
  itself.  A string has fewer than \<open>2^53\<close> code units, so lengths, indices into a
  line and the counters that run over the lines are exact; the one number that can start
  anywhere is the character given to the word extraction.
\<close>

fun bit_length :: "nat \<Rightarrow> nat" where
  "bit_length n = (if n = 0 then 0 else Suc (bit_length (n div 2)))"

definition round64 :: "int \<Rightarrow> int" where
  "round64 x =
     (let m = nat \<bar>x\<bar>; k = bit_length m - 53;
          q = m div 2 ^ k; r = m mod 2 ^ k;
          q' = (if 2 ^ k < 2 * r \<or> (2 * r = 2 ^ k \<and> odd q) then q + 1 else q)
      in sgn x * int (q' * 2 ^ k))"

definition js_succ :: "int \<Rightarrow> int" where
  "js_succ e = round64 (e + 1)"

definition js_pred :: "int \<Rightarrow> int" where
  "js_pred e = round64 (e - 1)"

section \<open>The declaration patterns\<close>

text \<open>
  The two regular expressions of \<open>parseDocumentSymbols\<close> are sequences of five kinds of
  item: the assertion \<open>\b\<close>, a non-capturing alternation of literal words, a greedy
  repetition of a character class with a least count (\<open>\s+\<close>, \<open>\s*\<close>), the same
  repetition inside the capturing group, and one literal code unit.
\<close>

datatype cclass = Space | Ident

fun in_class :: "cclass \<Rightarrow> cu \<Rightarrow> bool" where
  "in_class Space c = is_space c"
| "in_class Ident c = is_ident c"

datatype item =
    Boundary
  | Keyword "jsstring list"
  | Rep cclass nat
  | Group cclass nat
  | Lit cu

definition varRegex :: "item list" where
  "varRegex =
     [Boundary, Keyword [js ''let'', js ''const''], Rep Space 1, Group Ident 1, Rep Space 0,
      Lit 0x3D]"

definition funcRegex :: "item list" where
  "funcRegex =
     [Boundary, Keyword [js ''function''], Rep Space 1, Group Ident 1, Rep Space 0, Lit 0x28]"

text \<open>
  \<open>\b\<close> holds at index \<open>i\<close> when exactly one of the code units before and at \<open>i\<close> is a
  word character; outside the string there is none.
\<close>

definition at_boundary :: "jsstring \<Rightarrow> nat \<Rightarrow> bool" where
  "at_boundary s i \<longleftrightarrow>
     (0 < i \<and> i - 1 < length s \<and> is_word (s ! (i - 1))) \<noteq> (i < length s \<and> is_word (s ! i))"

definition run :: "cclass \<Rightarrow> jsstring \<Rightarrow> nat" where
  "run c s = length (takeWhile (in_class c) s)"

text \<open>
  The backtracking matcher, as the list of its successes in the order in which
  backtracking reaches them: an alternation tries its words from left to right, a greedy
  repetition tries the longest run first and then each shorter one down to its least
  count.  Each success is the text last captured by the group (empty before the group
  took part).
\<close>

fun matches :: "item list \<Rightarrow> jsstring \<Rightarrow> nat \<Rightarrow> jsstring \<Rightarrow> jsstring list" where
  "matches [] s i cap = [cap]"
| "matches (Boundary # r) s i cap = (if at_boundary s i then matches r s i cap else [])"
| "matches (Keyword ks # r) s i cap =
     concat (map (\<lambda>k. if take (length k) (drop i s) = k then matches r s (i + length k) cap
                       else []) ks)"
| "matches (Rep c m # r) s i cap =
     concat (map (\<lambda>n. matches r s (i + n) cap) (rev [m ..< Suc (run c (drop i s))]))"
| "matches (Group c m # r) s i cap =
     concat (map (\<lambda>n. matches r s (i + n) (take n (drop i s)))
                 (rev [m ..< Suc (run c (drop i s))]))"
| "matches (Lit ch # r) s i cap =
     (if i < length s \<and> s ! i = ch then matches r s (Suc i) cap else [])"

text \<open>
  \<open>s.match(rx)\<close> without the \<open>g\<close> flag: the first success at the least start index,
  \<open>None\<close> for \<open>null\<close>.  The value is the capture \<open>match[1]\<close>.
\<close>

definition match_first :: "item list \<Rightarrow> jsstring \<Rightarrow> jsstring option" where
  "match_first rx s =
     (case concat (map (\<lambda>i. matches rx s i []) [0 ..< Suc (length s)]) of
        [] \<Rightarrow> None
      | cap # _ \<Rightarrow> Some cap)"

section \<open>Data of the server\<close>

record position =
  pos_line :: int
  pos_character :: int

record range =
  range_start :: position
  range_end :: position

datatype symbol_type = Variable | Function

fun type_name :: "symbol_type \<Rightarrow> jsstring" where
  "type_name Variable = js ''variable''"
| "type_name Function = js ''function''"

record symbol =
  sym_name :: jsstring
  sym_range :: range
  sym_type :: symbol_type
  sym_docUri :: uri

record diagnostic =
  diag_severity :: nat
  diag_range :: range
  diag_message :: jsstring
  diag_source :: jsstring

record document =
  doc_uri :: uri
  getText :: jsstring

record location =
  loc_uri :: uri
  loc_range :: range

record text_edit =
  edit_range :: range
  edit_newText :: jsstring

record workspace_edit =
  changes :: "(uri \<times> text_edit list) list"

record hover =
  hover_kind :: jsstring
  hover_value :: jsstring

datatype error = TypeError

text \<open>
  The state: the table \<open>symbolTable\<close>, the documents of the manager, and the diagnostics
  sent to the client so far.

  The table is a plain object, \<open>let symbolTable = {}\<close>.  \<open>symbolTable st k = Some syms\<close>
  says that the array \<open>syms\<close> was assigned under the key \<open>k\<close>: it is then an own property
  of the object, except under the key \<open>__proto__\<close>, where the assignment makes the array
  the prototype of the object (and reading that key gives the prototype back).  A key
  with no array assigned is read through the prototype: \<open>Object.prototype\<close> at first,
  whose properties are those of \<open>object_prototype_names\<close>, all of them functions but
  \<open>__proto__\<close>, which gives the prototype object itself.

  Taken as a parameter: \<open>array_answers st syms k\<close> says whether an array of the symbols
  \<open>syms\<close> has, of its own or through \<open>Array.prototype\<close> and \<open>Object.prototype\<close>, a
  property \<open>k\<close> with a truthy value (an index, a length other than 0, a method).  The
  runtime fixes that, not the server; none of these values is an array.
\<close>

record server_state =
  symbolTable :: "uri \<rightharpoonup> symbol list"
  documents :: "uri \<rightharpoonup> document"
  sent :: "(uri \<times> diagnostic list) list"
  array_answers :: "symbol list \<Rightarrow> jsstring \<Rightarrow> bool"

definition object_prototype_names :: "jsstring list" where
  "object_prototype_names =
     [js ''constructor'', js ''__defineGetter__'', js ''__defineSetter__'',
      js ''hasOwnProperty'', js ''__lookupGetter__'', js ''__lookupSetter__'',
      js ''isPrototypeOf'', js ''propertyIsEnumerable'', js ''toString'', js ''valueOf'',
      js ''__proto__'', js ''toLocaleString'']"

text \<open>
  The value of \<open>symbolTable[uri]\<close>: an array of symbols, a truthy value that is not an
  array (\<open>Foreign\<close>), or \<open>undefined\<close> or another falsy value (\<open>Absent\<close>).
\<close>

datatype table_value = Absent | Symbols "symbol list" | Foreign

definition table_get :: "server_state \<Rightarrow> uri \<Rightarrow> table_value" where
  "table_get st u =
     (case symbolTable st u of
        Some syms \<Rightarrow> Symbols syms
      | None \<Rightarrow>
          (case symbolTable st (js ''__proto__'') of
             None \<Rightarrow> if u \<in> set object_prototype_names then Foreign else Absent
           | Some arr \<Rightarrow> if array_answers st arr u then Foreign else Absent))"

definition line_range :: "nat \<Rightarrow> int \<Rightarrow> int \<Rightarrow> range" where
  "line_range i a b =
     \<lparr>range_start = \<lparr>pos_line = int i, pos_character = a\<rparr>,
      range_end = \<lparr>pos_line = int i, pos_character = b\<rparr>\<rparr>"

section \<open>Diagnostics\<close>

definition long_line :: "nat \<Rightarrow> jsstring \<Rightarrow> diagnostic" where
  "long_line i l =
     \<lparr>diag_severity = 2, diag_range = line_range i 80 (int (length l)),
      diag_message = js ''Line exceeds 80 characters.'', diag_source = js ''demo-lsp''\<rparr>"

function validate_loop :: "jsstring list \<Rightarrow> nat \<Rightarrow> diagnostic list \<Rightarrow> diagnostic list" where
  "validate_loop lines i diagnostics =
     (if i < length lines then
        validate_loop lines (i + 1)
          (if length (lines ! i) > 80 then diagnostics @ [long_line i (lines ! i)]
           else diagnostics)
      else diagnostics)"
  by pat_completeness auto
termination
  by (relation "measure (\<lambda>(lines, i, diagnostics). length lines - i)") auto

definition validateTextDocument ::
  "server_state \<Rightarrow> document \<Rightarrow> diagnostic list \<times> server_state" where
  "validateTextDocument st textDocument =
     (let lines = split_lines (getText textDocument);
          diagnostics = validate_loop lines 0 []
      in (diagnostics, st\<lparr>sent := sent st @ [(doc_uri textDocument, diagnostics)]\<rparr>))"

section \<open>Symbol parsing\<close>

definition push_symbol ::
  "uri \<Rightarrow> symbol \<Rightarrow> (uri \<rightharpoonup> symbol list) \<Rightarrow> error + (uri \<rightharpoonup> symbol list)" where
  "push_symbol u sy tbl =
     (case tbl u of None \<Rightarrow> Inl TypeError | Some syms \<Rightarrow> Inr (tbl(u \<mapsto> syms @ [sy])))"

definition declared :: "uri \<Rightarrow> nat \<Rightarrow> jsstring \<Rightarrow> symbol_type \<Rightarrow> jsstring \<Rightarrow> symbol" where
  "declared u i l ty nm =
     (let startChar = indexOf l nm; endChar = startChar + int (length nm)
      in \<lparr>sym_name = nm, sym_range = line_range i startChar endChar, sym_type = ty,
          sym_docUri = u\<rparr>)"

text \<open>One test of a line: \<open>if (m && m[1]) symbolTable[uri].push(...)\<close>.\<close>

definition declare_shape ::
  "item list \<Rightarrow> symbol_type \<Rightarrow> uri \<Rightarrow> nat \<Rightarrow> jsstring \<Rightarrow> (uri \<rightharpoonup> symbol list)
     \<Rightarrow> error + (uri \<rightharpoonup> symbol list)" where
  "declare_shape rx ty u i l tbl =
     (case match_first rx l of
        None \<Rightarrow> Inr tbl
      | Some nm \<Rightarrow> if nm \<noteq> [] then push_symbol u (declared u i l ty nm) tbl else Inr tbl)"

definition declare_line ::
  "uri \<Rightarrow> nat \<Rightarrow> jsstring \<Rightarrow> (uri \<rightharpoonup> symbol list) \<Rightarrow> error + (uri \<rightharpoonup> symbol list)" where
  "declare_line u i l tbl =
     (case declare_shape varRegex Variable u i l tbl of
        Inl e \<Rightarrow> Inl e
      | Inr tbl' \<Rightarrow> declare_shape funcRegex Function u i l tbl')"

function parse_loop ::
  "uri \<Rightarrow> jsstring list \<Rightarrow> nat \<Rightarrow> (uri \<rightharpoonup> symbol list) \<Rightarrow> error + (uri \<rightharpoonup> symbol list)" where
  "parse_loop u lines i tbl =
     (if i < length lines then
        (case declare_line u i (lines ! i) tbl of
           Inl e \<Rightarrow> Inl e
         | Inr tbl' \<Rightarrow> parse_loop u lines (i + 1) tbl')
      else Inr tbl)"
  by pat_completeness auto
termination
  by (relation "measure (\<lambda>(u, lines, i, tbl). length lines - i)") auto

definition parseDocumentSymbols :: "server_state \<Rightarrow> document \<Rightarrow> error + server_state" where
  "parseDocumentSymbols st textDocument =
     (let lines = split_lines (getText textDocument);
          u = doc_uri textDocument
      in case parse_loop u lines 0 ((symbolTable st)(u \<mapsto> [])) of
           Inl e \<Rightarrow> Inl e
         | Inr tbl \<Rightarrow> Inr (st\<lparr>symbolTable := tbl\<rparr>))"

section \<open>Word extraction\<close>

text \<open>
  \<open>/[a-zA-Z0-9_$]/.test(v)\<close> converts \<open>v\<close> to a string and looks for a code unit of the
  class anywhere in it.  \<open>lineText[k]\<close> is a string of one code unit, or \<open>undefined\<close>
  outside the line, which the conversion turns into the text \<open>undefined\<close>.
\<close>

definition to_string :: "cu option \<Rightarrow> jsstring" where
  "to_string v = (case v of None \<Rightarrow> js ''undefined'' | Some c \<Rightarrow> [c])"

definition ident_test :: "cu option \<Rightarrow> bool" where
  "ident_test v = list_ex is_ident (to_string v)"

text \<open>
  The two \<open>while\<close> loops.  A loop that does not end has no value: \<open>None\<close>.
\<close>

partial_function (option) scan_start :: "jsstring \<Rightarrow> int \<Rightarrow> int option" where
  "scan_start lineText start =
     (if start > 0 \<and> ident_test (js_nth lineText (start - 1))
      then scan_start lineText (js_pred start) else Some start)"

partial_function (option) scan_end :: "jsstring \<Rightarrow> int \<Rightarrow> int option" where
  "scan_end lineText e =
     (if e < int (length lineText) \<and> ident_test (js_nth lineText e)
      then scan_end lineText (js_succ e) else Some e)"

text \<open>
  The result is \<open>None\<close> when the call does not return, \<open>Some (Inr None)\<close> for \<open>null\<close>,
  \<open>Some (Inr (Some word))\<close> for a string, and \<open>Some (Inl TypeError)\<close> when \<open>lines[line]\<close>
  is \<open>undefined\<close> and its \<open>length\<close> is read.
\<close>

definition getWordAtPosition ::
  "document \<Rightarrow> int \<Rightarrow> int \<Rightarrow> (error + jsstring option) option" where
  "getWordAtPosition textDocument ln character =
     (let lines = split_lines (getText textDocument) in
      if ln \<ge> int (length lines) then Some (Inr None)
      else case js_nth lines ln of
        None \<Rightarrow> Some (Inl TypeError)
      | Some lineText \<Rightarrow>
          if character \<ge> int (length lineText) then Some (Inr None)
          else (case scan_start lineText character of
                  None \<Rightarrow> None
                | Some start \<Rightarrow>
                    (case scan_end lineText character of
                       None \<Rightarrow> None
                     | Some e \<Rightarrow> Some (Inr (Some (substring lineText start e))))))"

definition isPositionInRange :: "int \<Rightarrow> int \<Rightarrow> range \<Rightarrow> bool" where
  "isPositionInRange ln character r =
     (if ln < pos_line (range_start r) \<or> ln > pos_line (range_end r) then False
      else if ln = pos_line (range_start r) \<and> character < pos_character (range_start r)
        then False
      else if ln = pos_line (range_end r) \<and> character > pos_character (range_end r)
        then False
      else True)"

section \<open>Feature handlers\<close>

text \<open>
  \<open>const docSymbols = symbolTable[uri] || []\<close>, as the handlers use it: the array they
  go through.  A truthy value that is not an array is not iterable and has no \<open>find\<close>
  method, so \<open>for (const sym of docSymbols)\<close> and \<open>docSymbols.find(...)\<close> raise.
\<close>

definition docSymbols :: "server_state \<Rightarrow> uri \<Rightarrow> error + symbol list" where
  "docSymbols st u =
     (case table_get st u of
        Absent \<Rightarrow> Inr []
      | Symbols syms \<Rightarrow> Inr syms
      | Foreign \<Rightarrow> Inl TypeError)"

definition hover_of :: "symbol \<Rightarrow> hover" where
  "hover_of sy =
     \<lparr>hover_kind = js ''markdown'',
      hover_value = js ''**Symbol**: `'' @ sym_name sy @ js ''`'' @ [LF] @ js ''**Type**: `''
                    @ type_name (sym_type sy) @ js ''`''\<rparr>"

fun hover_loop :: "symbol list \<Rightarrow> int \<Rightarrow> int \<Rightarrow> hover option" where
  "hover_loop [] ln character = None"
| "hover_loop (sy # rest) ln character =
     (if isPositionInRange ln character (sym_range sy) then Some (hover_of sy)
      else hover_loop rest ln character)"

definition handleHover :: "server_state \<Rightarrow> uri \<Rightarrow> int \<Rightarrow> int \<Rightarrow> error + hover option" where
  "handleHover st u ln character =
     (case docSymbols st u of
        Inl e \<Rightarrow> Inl e
      | Inr syms \<Rightarrow> Inr (hover_loop syms ln character))"

definition handleDefinition ::
  "server_state \<Rightarrow> uri \<Rightarrow> int \<Rightarrow> int \<Rightarrow> (error + location option) option" where
  "handleDefinition st u ln character =
     (case documents st u of
        None \<Rightarrow> Some (Inr None)
      | Some doc \<Rightarrow>
          (case getWordAtPosition doc ln character of
             None \<Rightarrow> None
           | Some (Inl e) \<Rightarrow> Some (Inl e)
           | Some (Inr None) \<Rightarrow> Some (Inr None)
           | Some (Inr (Some word)) \<Rightarrow>
               if word = [] then Some (Inr None)
               else (case docSymbols st u of
                       Inl e \<Rightarrow> Some (Inl e)
                     | Inr syms \<Rightarrow>
                         (case find (\<lambda>sy. sym_name sy = word) syms of
                            None \<Rightarrow> Some (Inr None)
                          | Some foundSymbol \<Rightarrow>
                              Some (Inr (Some \<lparr>loc_uri = sym_docUri foundSymbol,
                                                loc_range = sym_range foundSymbol\<rparr>))))))"

function references_loop ::
  "uri \<Rightarrow> jsstring \<Rightarrow> jsstring list \<Rightarrow> nat \<Rightarrow> location list \<Rightarrow> location list" where
  "references_loop u word lines i locations =
     (if i < length lines then
        (let idx = indexOf (lines ! i) word
         in references_loop u word lines (i + 1)
              (if idx \<noteq> - 1 then
                 locations @ [\<lparr>loc_uri = u,
                                loc_range = line_range i idx (idx + int (length word))\<rparr>]
               else locations))
      else locations)"
  by pat_completeness auto
termination
  by (relation "measure (\<lambda>(u, word, lines, i, locations). length lines - i)") auto

definition handleReferences ::
  "server_state \<Rightarrow> uri \<Rightarrow> int \<Rightarrow> int \<Rightarrow> (error + location list) option" where
  "handleReferences st u ln character =
     (case documents st u of
        None \<Rightarrow> Some (Inr [])
      | Some doc \<Rightarrow>
          (case getWordAtPosition doc ln character of
             None \<Rightarrow> None
           | Some (Inl e) \<Rightarrow> Some (Inl e)
           | Some (Inr None) \<Rightarrow> Some (Inr [])
           | Some (Inr (Some word)) \<Rightarrow>
               if word = [] then Some (Inr [])
               else Some (Inr (references_loop u word (split_lines (getText doc)) 0 []))))"

function rename_loop ::
  "jsstring \<Rightarrow> jsstring \<Rightarrow> jsstring list \<Rightarrow> nat \<Rightarrow> text_edit list \<Rightarrow> text_edit list" where
  "rename_loop oldName newName lines i edits =
     (if i < length lines then
        (let idx = indexOf (lines ! i) oldName
         in rename_loop oldName newName lines (i + 1)
              (if idx \<noteq> - 1 then
                 edits @ [\<lparr>edit_range = line_range i idx (idx + int (length oldName)),
                            edit_newText = newName\<rparr>]
               else edits))
      else edits)"
  by pat_completeness auto
termination
  by (relation "measure (\<lambda>(oldName, newName, lines, i, edits). length lines - i)") auto

text \<open>\<open>newName\<close> is \<open>None\<close> when the request has none.\<close>

definition handleRenameRequest ::
  "server_state \<Rightarrow> uri \<Rightarrow> int \<Rightarrow> int \<Rightarrow> jsstring option
     \<Rightarrow> (error + workspace_edit option) option" where
  "handleRenameRequest st u ln character newName =
     (case documents st u of
        None \<Rightarrow> Some (Inr None)
      | Some doc \<Rightarrow>
          (case getWordAtPosition doc ln character of
             None \<Rightarrow> None
           | Some (Inl e) \<Rightarrow> Some (Inl e)
           | Some (Inr None) \<Rightarrow> Some (Inr None)
           | Some (Inr (Some oldName)) \<Rightarrow>
               (case newName of
                  None \<Rightarrow> Some (Inr None)
                | Some new \<Rightarrow>
                    if oldName = [] \<or> new = [] then Some (Inr None)
                    else Some (Inr (Some \<lparr>changes =
                      [(u, rename_loop oldName new (split_lines (getText doc)) 0 [])]\<rparr>)))))"

section \<open>Descriptions of the loops\<close>

text \<open>What one line contributes to the diagnostics.\<close>

definition line_diagnostics :: "jsstring list \<Rightarrow> nat \<Rightarrow> diagnostic list" where
  "line_diagnostics lines i = (if 80 < length (lines ! i) then [long_line i (lines ! i)] else [])"

section \<open>Example documents\<close>

text \<open>
  No example assigns under \<open>__proto__\<close>, so none consults \<open>array_answers\<close>; it is set
  to answer every name.
\<close>

definition state0 :: server_state where
  "state0 =
     \<lparr>symbolTable = Map.empty, documents = Map.empty, sent = [],
      array_answers = (\<lambda>syms k. True)\<rparr>"

text \<open>A short line and a line of 85 code units, as in the test of the diagnostics.\<close>

definition long_text :: jsstring where
  "long_text = js ''Short line'' @ [LF]
     @ js ''aaaaaaaaaaaaaaaaaaaaaaaaaaaaaaaaaaaaaaaaaaaaaaaaaaaaaaaaaaaaaaaaaaaaaaaaaaaaaaaaaaaaa''"

definition long_doc :: document where
  "long_doc = \<lparr>doc_uri = js ''file://testDiagnostics.js'', getText = long_text\<rparr>"

text \<open>\<open>w\<close> stands in \<open>s\<close> at index \<open>k\<close>.\<close>

definition occurs_at :: "jsstring \<Rightarrow> jsstring \<Rightarrow> nat \<Rightarrow> bool" where
  "occurs_at s w k \<longleftrightarrow> k \<le> length s \<and> take (length w) (drop k s) = w"

text \<open>
  The symbols one line declares, as the specification words them: at most one for the
  binding shape, then at most one for the function shape.
\<close>

definition shape_symbols ::
  "item list \<Rightarrow> symbol_type \<Rightarrow> uri \<Rightarrow> nat \<Rightarrow> jsstring \<Rightarrow> symbol list" where
  "shape_symbols rx ty u i l =
     (case match_first rx l of
        None \<Rightarrow> []
      | Some nm \<Rightarrow> if nm \<noteq> [] then [declared u i l ty nm] else [])"

definition line_symbols :: "uri \<Rightarrow> jsstring list \<Rightarrow> nat \<Rightarrow> symbol list" where
  "line_symbols u lines i =
     shape_symbols varRegex Variable u i (lines ! i)
     @ shape_symbols funcRegex Function u i (lines ! i)"

definition scan_symbols :: "uri \<Rightarrow> jsstring \<Rightarrow> symbol list" where
  "scan_symbols u t =
     (let lines = split_lines t in concat (map (line_symbols u lines) [0..<length lines]))"

text \<open>Two bindings on one line; the name of the first also ends the keyword.\<close>

definition two_lets :: document where
  "two_lets = \<lparr>doc_uri = js ''file://two.js'', getText = js ''let t = 1; let b = 2''\<rparr>"

text \<open>The document of the tests: a binding, a function, and a use of the binding.\<close>

definition sample_text :: jsstring where
  "sample_text = js ''let myVar = 10;'' @ [LF] @ js ''function myFunc() {'' @ [LF]
     @ js ''  console.log(myVar);'' @ [LF] @ js ''}''"

definition sample_doc :: document where
  "sample_doc = \<lparr>doc_uri = js ''file://defTest.js'', getText = sample_text\<rparr>"

definition myVar_symbol :: symbol where
  "myVar_symbol =
     \<lparr>sym_name = js ''myVar'', sym_range = line_range 0 4 9, sym_type = Variable,
      sym_docUri = js ''file://defTest.js''\<rparr>"

definition myFunc_symbol :: symbol where
  "myFunc_symbol =
     \<lparr>sym_name = js ''myFunc'', sym_range = line_range 1 9 15, sym_type = Function,
      sym_docUri = js ''file://defTest.js''\<rparr>"

text \<open>The state after the sample document was opened and parsed.\<close>

definition sample_state :: server_state where
  "sample_state =
     \<lparr>symbolTable = [js ''file://defTest.js'' \<mapsto> [myVar_symbol, myFunc_symbol]],
      documents = [js ''file://defTest.js'' \<mapsto> sample_doc], sent = [], array_answers = (\<lambda>syms k. True)\<rparr>"

text \<open>The location one line contributes to the references of a word.\<close>

definition line_references :: "uri \<Rightarrow> jsstring \<Rightarrow> jsstring list \<Rightarrow> nat \<Rightarrow> location list" where
  "line_references u word lines i =
     (case index_of (lines ! i) word of
        None \<Rightarrow> []
      | Some k \<Rightarrow>
          [\<lparr>loc_uri = u, loc_range = line_range i (int k) (int k + int (length word))\<rparr>])"

text \<open>The edit that renames at a location.\<close>

definition edit_at :: "jsstring \<Rightarrow> location \<Rightarrow> text_edit" where
  "edit_at newName l = \<lparr>edit_range = loc_range l, edit_newText = newName\<rparr>"

text \<open>A binding whose value is a function expression of the same name.\<close>

definition shadow_doc :: document where
  "shadow_doc = \<lparr>doc_uri = js ''file://shadow.js'', getText = js ''let foo = function foo() {}''\<rparr>"

definition foo_variable :: symbol where
  "foo_variable =
     \<lparr>sym_name = js ''foo'', sym_range = line_range 0 4 7, sym_type = Variable,
      sym_docUri = js ''file://shadow.js''\<rparr>"

definition foo_function :: symbol where
  "foo_function =
     \<lparr>sym_name = js ''foo'', sym_range = line_range 0 4 7, sym_type = Function,
      sym_docUri = js ''file://shadow.js''\<rparr>"

definition shadow_state :: server_state where
  "shadow_state =
     \<lparr>symbolTable = [js ''file://shadow.js'' \<mapsto> [foo_variable, foo_function]],
      documents = Map.empty, sent = [], array_answers = (\<lambda>syms k. True)\<rparr>"

text \<open>A table with an entry for a document that the manager does not hold.\<close>

definition closed_state :: server_state where
  "closed_state =
     \<lparr>symbolTable = [js ''file://defTest.js'' \<mapsto> [myVar_symbol, myFunc_symbol]],
      documents = Map.empty, sent = [], array_answers = (\<lambda>syms k. True)\<rparr>"

text \<open>
  A document held under a key that the table object inherits, with no entry of the
  table, as when a test puts a document into the manager without parsing it.
\<close>

definition constructor_doc :: document where
  "constructor_doc = \<lparr>doc_uri = js ''constructor'', getText = sample_text\<rparr>"

definition injected_state :: server_state where
  "injected_state =
     \<lparr>symbolTable = Map.empty, documents = [js ''constructor'' \<mapsto> constructor_doc],
      sent = [], array_answers = (\<lambda>syms k. True)\<rparr>"

section \<open>Properties\<close>

subsection \<open>Lines and list comprehension\<close>

declare validate_loop.simps [simp del]
declare parse_loop.simps [simp del]
declare references_loop.simps [simp del]
declare rename_loop.simps [simp del]
declare bit_length.simps [simp del]

lemma cons_first_nonempty: "cons_first x ys \<noteq> []"
  by (cases ys) simp_all

lemma split_lines_nonempty: "split_lines t \<noteq> []"
  by (induction t rule: split_lines.induct) (simp_all add: cons_first_nonempty split: list.split)

lemma filter_concat_upt_none:
  assumes "\<And>j x. j < n \<Longrightarrow> x \<in> set (f j) \<Longrightarrow> key x = int j" and "n \<le> i"
  shows "filter (\<lambda>x. key x = int i) (concat (map f [0..<n])) = []"
  using assms by (auto simp: filter_empty_conv)

lemma filter_concat_upt:
  assumes "\<And>j x. j < n \<Longrightarrow> x \<in> set (f j) \<Longrightarrow> key x = int j" and "i < n"
  shows "filter (\<lambda>x. key x = int i) (concat (map f [0..<n])) = f i"
  using assms
proof (induction n)
  case 0
  then show ?case by simp
next
  case (Suc n)
  have last_chunk: "\<And>x. x \<in> set (f n) \<Longrightarrow> key x = int n"
    using Suc.prems(1) by simp
  show ?case
  proof (cases "i < n")
    case True
    then have "filter (\<lambda>x. key x = int i) (concat (map f [0..<n])) = f i"
      using Suc.IH Suc.prems(1) by simp
    moreover have "filter (\<lambda>x. key x = int i) (f n) = []"
      using True last_chunk by (auto simp: filter_empty_conv)
    ultimately show ?thesis by simp
  next
    case False
    then have eq: "i = n" using Suc.prems(2) by simp
    have "filter (\<lambda>x. key x = int n) (concat (map f [0..<n])) = []"
      by (rule filter_concat_upt_none) (use Suc.prems(1) in simp_all)
    moreover have "filter (\<lambda>x. key x = int n) (f n) = f n"
      using last_chunk by (simp add: filter_id_conv)
    ultimately show ?thesis using eq by simp
  qed
qed

subsection \<open>Diagnostics\<close>

lemma validate_loop_concat:
  "validate_loop lines i acc = acc @ concat (map (line_diagnostics lines) [i..<length lines])"
proof (induction lines i acc rule: validate_loop.induct)
  case (1 lines i acc)
  show ?case
  proof (cases "i < length lines")
    case True
    then show ?thesis
      using "1.IH"
      by (subst validate_loop.simps) (simp add: upt_conv_Cons line_diagnostics_def [of lines i])
  next
    case False
    then show ?thesis by (subst validate_loop.simps) simp
  qed
qed

lemma line_diagnostics_key:
  "d \<in> set (line_diagnostics lines j) \<Longrightarrow> pos_line (range_start (diag_range d)) = int j"
  by (auto simp: line_diagnostics_def long_line_def line_range_def split: if_splits)

lemma long_text_lines:
  "split_lines long_text =
     [js ''Short line'',
      js ''aaaaaaaaaaaaaaaaaaaaaaaaaaaaaaaaaaaaaaaaaaaaaaaaaaaaaaaaaaaaaaaaaaaaaaaaaaaaaaaaaaaaa'']"
  by (simp add: long_text_def js_def LF_def CR_def)

text \<open>
  C4.  The diagnostics of a text are, line by line in order, nothing for a line of at
  most 80 code units and, for a line of \<open>n > 80\<close> code units, one diagnostic of severity
  2 (Warning) on that line from character 80 to character \<open>n\<close>, with the fixed message
  and source.  So the diagnostics on line \<open>i\<close> are exactly that one or none, and a line
  of 85 code units has exactly one, from 80 to 85.
\<close>

theorem validate_long_lines:
  "(let lines = split_lines (getText textDocument);
        diagnostics = fst (validateTextDocument st textDocument);
        warning = (\<lambda>i n. \<lparr>diag_severity = 2,
                           diag_range = \<lparr>range_start = \<lparr>pos_line = int i, pos_character = 80\<rparr>,
                                         range_end = \<lparr>pos_line = int i, pos_character = int n\<rparr>\<rparr>,
                           diag_message = js ''Line exceeds 80 characters.'',
                           diag_source = js ''demo-lsp''\<rparr>)
    in diagnostics =
         concat (map (\<lambda>i. if 80 < length (lines ! i) then [warning i (length (lines ! i))] else [])
                     [0..<length lines])
     \<and> (\<forall>i<length lines.
           filter (\<lambda>d. pos_line (range_start (diag_range d)) = int i) diagnostics =
             (if 80 < length (lines ! i) then [warning i (length (lines ! i))] else []))
     \<and> (\<forall>i<length lines. length (lines ! i) = 85 \<longrightarrow>
           filter (\<lambda>d. pos_line (range_start (diag_range d)) = int i) diagnostics =
             [warning i 85]))"
proof -
  define lines where "lines = split_lines (getText textDocument)"
  define diagnostics where "diagnostics = fst (validateTextDocument st textDocument)"
  have whole: "diagnostics = concat (map (line_diagnostics lines) [0..<length lines])"
    by (simp add: diagnostics_def validateTextDocument_def Let_def validate_loop_concat lines_def)
  have per_line: "filter (\<lambda>d. pos_line (range_start (diag_range d)) = int i) diagnostics =
      line_diagnostics lines i" if "i < length lines" for i
    unfolding whole
    by (rule filter_concat_upt) (use that line_diagnostics_key in auto)
  have unfolded: "line_diagnostics lines = (\<lambda>i. if 80 < length (lines ! i) then
      [\<lparr>diag_severity = 2,
        diag_range = \<lparr>range_start = \<lparr>pos_line = int i, pos_character = 80\<rparr>,
                      range_end = \<lparr>pos_line = int i, pos_character = int (length (lines ! i))\<rparr>\<rparr>,
        diag_message = js ''Line exceeds 80 characters.'',
        diag_source = js ''demo-lsp''\<rparr>] else [])"
    by (rule ext) (simp add: line_diagnostics_def long_line_def line_range_def)
  show ?thesis
    unfolding Let_def lines_def [symmetric] diagnostics_def [symmetric]
    using whole per_line by (simp add: unfolded)
qed

theorem validate_long_lines_witness:
  "(1::nat) < length (split_lines long_text)
   \<and> length (split_lines long_text ! 1) = 85
   \<and> fst (validateTextDocument state0 long_doc)
      = [\<lparr>diag_severity = 2,
          diag_range = \<lparr>range_start = \<lparr>pos_line = 1, pos_character = 80\<rparr>,
                        range_end = \<lparr>pos_line = 1, pos_character = 85\<rparr>\<rparr>,
          diag_message = js ''Line exceeds 80 characters.'',
          diag_source = js ''demo-lsp''\<rparr>]"
  using validate_long_lines [of long_doc state0]
  by (simp add: Let_def long_doc_def long_text_lines) (simp add: js_def)

subsection \<open>First occurrences and captures\<close>

lemma index_of_Some:
  "index_of s w = Some k \<Longrightarrow> occurs_at s w k \<and> (\<forall>j<k. \<not> occurs_at s w j)"
proof (induction s arbitrary: k)
  case Nil
  then show ?case by (simp add: occurs_at_def split: if_splits)
next
  case (Cons x xs)
  show ?case
  proof (cases "take (length w) (x # xs) = w")
    case True
    with Cons.prems show ?thesis by (simp add: occurs_at_def)
  next
    case False
    with Cons.prems obtain k' where k': "index_of xs w = Some k'" "k = Suc k'"
      by auto
    from Cons.IH [OF k'(1)] have ih: "occurs_at xs w k'" "\<forall>j<k'. \<not> occurs_at xs w j"
      by simp_all
    have here: "occurs_at (x # xs) w (Suc k')"
      using ih(1) by (simp add: occurs_at_def)
    have before: "\<not> occurs_at (x # xs) w j" if "j < Suc k'" for j
    proof (cases j)
      case 0
      then show ?thesis using False by (simp add: occurs_at_def)
    next
      case (Suc j')
      then show ?thesis using ih(2) that by (simp add: occurs_at_def)
    qed
    show ?thesis using here before k'(2) by simp
  qed
qed

lemma index_of_None: "index_of s w = None \<Longrightarrow> \<not> occurs_at s w k"
proof (induction s arbitrary: k)
  case Nil
  then show ?case by (auto simp: occurs_at_def split: if_splits)
next
  case (Cons x xs)
  from Cons.prems have no_head: "take (length w) (x # xs) \<noteq> w" and rest: "index_of xs w = None"
    by (auto split: if_splits)
  show ?case
  proof (cases k)
    case 0
    then show ?thesis using no_head by (simp add: occurs_at_def)
  next
    case (Suc k')
    then show ?thesis using Cons.IH [OF rest, of k'] by (simp add: occurs_at_def)
  qed
qed

lemma occurs_index_of: "occurs_at s w k \<Longrightarrow> \<exists>j. index_of s w = Some j"
  using index_of_None [of s w k] by (cases "index_of s w") auto

lemma occurs_at_length: "occurs_at s w k \<Longrightarrow> k + length w \<le> length s"
proof -
  assume a: "occurs_at s w k"
  then have "length (take (length w) (drop k s)) = length w" by (simp add: occurs_at_def)
  then show ?thesis using a by (simp add: occurs_at_def min_def split: if_splits)
qed

lemma substring_occurs:
  "occurs_at s w k \<Longrightarrow> substring s (int k) (int k + int (length w)) = w"
proof -
  assume a: "occurs_at s w k"
  have len: "k + length w \<le> length s" using a by (rule occurs_at_length)
  have "nat (int k + int (length w)) = k + length w" by simp
  then show ?thesis
    using a len by (simp add: substring_def clamp_index_def Let_def occurs_at_def min_def max_def)
qed

lemma indexOf_Some: "index_of s w = Some k \<Longrightarrow> indexOf s w = int k"
  by (simp add: indexOf_def)

lemma indexOf_minus_one: "indexOf s w = - 1 \<longleftrightarrow> index_of s w = None"
  by (simp add: indexOf_def split: option.splits)

text \<open>Captures are pieces of the line.\<close>

lemma take_drop_occurs: "take n (drop i s) \<noteq> [] \<Longrightarrow> occurs_at s (take n (drop i s)) i"
  by (auto simp: occurs_at_def min_def)

lemma matches_capture:
  "x \<in> set (matches items s i cap) \<Longrightarrow> cap = [] \<or> (\<exists>k. occurs_at s cap k)
     \<Longrightarrow> x = [] \<or> (\<exists>k. occurs_at s x k)"
proof (induction items s i cap rule: matches.induct)
  case (5 c m r s i cap)
  from "5.prems"(1) obtain n where n: "n \<in> set (rev [m ..< Suc (run c (drop i s))])"
      "x \<in> set (matches r s (i + n) (take n (drop i s)))"
    by auto
  have "take n (drop i s) = [] \<or> (\<exists>k. occurs_at s (take n (drop i s)) k)"
    using take_drop_occurs by blast
  with "5.IH" [OF n] show ?case by simp
qed (auto split: if_splits)

lemma match_first_occurs:
  assumes "match_first rx s = Some nm" "nm \<noteq> []"
  shows "\<exists>k. occurs_at s nm k"
proof -
  from assms(1) obtain rest where
    "concat (map (\<lambda>i. matches rx s i []) [0 ..< Suc (length s)]) = nm # rest"
    by (auto simp: match_first_def split: list.splits)
  then have "nm \<in> set (concat (map (\<lambda>i. matches rx s i []) [0 ..< Suc (length s)]))"
    by simp
  then obtain i where "nm \<in> set (matches rx s i [])" by auto
  from matches_capture [OF this] assms(2) show ?thesis by simp
qed

subsection \<open>Symbol parsing\<close>

lemma declare_shape_push:
  "tbl u = Some syms \<Longrightarrow>
     declare_shape rx ty u i l tbl = Inr (tbl(u \<mapsto> syms @ shape_symbols rx ty u i l))"
  by (auto simp: declare_shape_def shape_symbols_def push_symbol_def split: option.splits)

lemma declare_line_push:
  "tbl u = Some syms \<Longrightarrow>
     declare_line u i (lines ! i) tbl = Inr (tbl(u \<mapsto> syms @ line_symbols u lines i))"
  by (simp add: declare_line_def line_symbols_def declare_shape_push)

lemma parse_loop_concat:
  "tbl u = Some syms \<Longrightarrow>
     parse_loop u lines i tbl =
       Inr (tbl(u \<mapsto> syms @ concat (map (line_symbols u lines) [i..<length lines])))"
proof (induction u lines i tbl arbitrary: syms rule: parse_loop.induct)
  case (1 u lines i tbl)
  show ?case
  proof (cases "i < length lines")
    case True
    have step: "declare_line u i (lines ! i) tbl = Inr (tbl(u \<mapsto> syms @ line_symbols u lines i))"
      using "1.prems" by (rule declare_line_push)
    have "parse_loop u lines (i + 1) (tbl(u \<mapsto> syms @ line_symbols u lines i)) =
        Inr ((tbl(u \<mapsto> syms @ line_symbols u lines i))
               (u \<mapsto> (syms @ line_symbols u lines i)
                      @ concat (map (line_symbols u lines) [i + 1..<length lines])))"
      by (rule "1.IH" [OF True step]) simp
    then show ?thesis
      using True step by (subst parse_loop.simps) (simp add: upt_conv_Cons)
  next
    case False
    then show ?thesis
      using "1.prems" by (subst parse_loop.simps) (simp add: fun_upd_idem)
  qed
qed

lemma parseDocumentSymbols_scan:
  "parseDocumentSymbols st textDocument =
     Inr (st\<lparr>symbolTable :=
            (symbolTable st)(doc_uri textDocument \<mapsto>
               scan_symbols (doc_uri textDocument) (getText textDocument))\<rparr>)"
  by (simp add: parseDocumentSymbols_def Let_def scan_symbols_def
      parse_loop_concat [where syms = "[]"])

lemma shape_symbols_cases:
  "shape_symbols rx ty u i l = [] \<or>
   (\<exists>nm k. shape_symbols rx ty u i l = [declared u i l ty nm] \<and> nm \<noteq> []
      \<and> index_of l nm = Some k)"
proof (cases "match_first rx l")
  case None
  then show ?thesis by (simp add: shape_symbols_def)
next
  case (Some nm)
  show ?thesis
  proof (cases "nm = []")
    case True
    with Some show ?thesis by (simp add: shape_symbols_def)
  next
    case False
    from match_first_occurs [OF Some False] obtain k where "index_of l nm = Some k"
      using occurs_index_of by blast
    with Some False have "shape_symbols rx ty u i l = [declared u i l ty nm] \<and> nm \<noteq> []
        \<and> index_of l nm = Some k"
      by (simp add: shape_symbols_def)
    then show ?thesis by blast
  qed
qed

lemma shape_symbols_length: "length (shape_symbols rx ty u i l) \<le> 1"
  using shape_symbols_cases [of rx ty u i l] by auto

lemma shape_symbols_member:
  assumes "sy \<in> set (shape_symbols rx ty u i l)"
  shows "sym_type sy = ty \<and> sym_docUri sy = u \<and> sym_name sy \<noteq> []
     \<and> (\<exists>k. index_of l (sym_name sy) = Some k
          \<and> sym_range sy = line_range i (int k) (int k + int (length (sym_name sy))))"
proof -
  from shape_symbols_cases [of rx ty u i l] assms obtain nm k where
    "sy = declared u i l ty nm" "nm \<noteq> []" "index_of l nm = Some k"
    by auto
  then show ?thesis by (simp add: declared_def Let_def indexOf_def)
qed

lemma line_symbols_member:
  assumes "sy \<in> set (line_symbols u lines i)"
  shows "sym_docUri sy = u \<and> sym_name sy \<noteq> []
     \<and> (\<exists>k. index_of (lines ! i) (sym_name sy) = Some k
          \<and> sym_range sy = line_range i (int k) (int k + int (length (sym_name sy))))"
  using assms shape_symbols_member unfolding line_symbols_def by fastforce

lemma line_symbols_key:
  "sy \<in> set (line_symbols u lines i) \<Longrightarrow> pos_line (range_start (sym_range sy)) = int i"
  using line_symbols_member [of sy u lines i] by (auto simp: line_range_def)

lemma line_symbols_filter:
  "length (filter (\<lambda>sy. sym_type sy = Variable) (line_symbols u lines i)) \<le> 1"
  "length (filter (\<lambda>sy. sym_type sy = Function) (line_symbols u lines i)) \<le> 1"
proof -
  have v: "filter (\<lambda>sy. sym_type sy = Function) (shape_symbols varRegex Variable u i l) = []" for l
    using shape_symbols_member [of _ varRegex Variable u i l] by (auto simp: filter_empty_conv)
  have f: "filter (\<lambda>sy. sym_type sy = Variable) (shape_symbols funcRegex Function u i l) = []" for l
    using shape_symbols_member [of _ funcRegex Function u i l] by (auto simp: filter_empty_conv)
  have le: "length (filter P (shape_symbols rx ty u i l)) \<le> Suc 0" for P rx ty l
    by (rule order_trans [OF length_filter_le]) (use shape_symbols_length [of rx ty u i l] in simp)
  show "length (filter (\<lambda>sy. sym_type sy = Variable) (line_symbols u lines i)) \<le> 1"
    by (simp add: line_symbols_def f le)
  show "length (filter (\<lambda>sy. sym_type sy = Function) (line_symbols u lines i)) \<le> 1"
    by (simp add: line_symbols_def v le)
qed



subsection \<open>The example documents, evaluated\<close>

lemma two_lets_lines: "split_lines (getText two_lets) = [js ''let t = 1; let b = 2'']"
  by (simp add: two_lets_def js_def LF_def CR_def)

lemma two_lets_var: "match_first varRegex (js ''let t = 1; let b = 2'') = Some (js ''t'')"
  by (simp add: match_first_def varRegex_def js_def at_boundary_def is_word_def run_def
      is_space_def is_ident_def)

lemma two_lets_func: "match_first funcRegex (js ''let t = 1; let b = 2'') = None"
  by (simp add: match_first_def funcRegex_def js_def at_boundary_def is_word_def run_def
      is_space_def is_ident_def)

lemma two_lets_scan:
  "scan_symbols (doc_uri two_lets) (getText two_lets) =
     [\<lparr>sym_name = js ''t'', sym_range = line_range 0 2 3, sym_type = Variable,
       sym_docUri = js ''file://two.js''\<rparr>]"
  unfolding scan_symbols_def Let_def two_lets_lines
  by (simp add: line_symbols_def shape_symbols_def two_lets_var two_lets_func declared_def)
     (simp add: two_lets_def js_def indexOf_def)

lemma sample_lines:
  "split_lines sample_text =
     [js ''let myVar = 10;'', js ''function myFunc() {'', js ''  console.log(myVar);'', js ''}'']"
  by (simp add: sample_text_def js_def LF_def CR_def)

lemma sample_scan:
  "scan_symbols (js ''file://defTest.js'') sample_text = [myVar_symbol, myFunc_symbol]"
  by code_simp

lemma sample_parse: "parseDocumentSymbols (state0\<lparr>documents := documents sample_state\<rparr>) sample_doc = Inr sample_state"
  by (simp add: parseDocumentSymbols_scan sample_scan sample_doc_def state0_def sample_state_def)

text \<open>
  C1.  Parsing never fails, and in the symbols it records for the document each line has
  at most one symbol of type variable and at most one of type function; every recorded
  symbol lies on one line \<open>i\<close> of the text, its range starts at the index \<open>k\<close> of the
  first occurrence of its name in that line (the value of \<open>indexOf\<close>, wherever the
  pattern matched) and ends at \<open>k\<close> plus the length of the name.
\<close>

theorem parse_one_symbol_per_shape:
  "\<exists>st' syms.
     parseDocumentSymbols st textDocument = Inr st'
     \<and> symbolTable st' (doc_uri textDocument) = Some syms
     \<and> (\<forall>i. length (filter (\<lambda>sy. pos_line (range_start (sym_range sy)) = int i
                                   \<and> sym_type sy = Variable) syms) \<le> 1
            \<and> length (filter (\<lambda>sy. pos_line (range_start (sym_range sy)) = int i
                                   \<and> sym_type sy = Function) syms) \<le> 1)
     \<and> (\<forall>sy \<in> set syms.
           \<exists>i k. i < length (split_lines (getText textDocument))
             \<and> occurs_at (split_lines (getText textDocument) ! i) (sym_name sy) k
             \<and> (\<forall>j<k. \<not> occurs_at (split_lines (getText textDocument) ! i) (sym_name sy) j)
             \<and> indexOf (split_lines (getText textDocument) ! i) (sym_name sy) = int k
             \<and> sym_range sy =
                 \<lparr>range_start = \<lparr>pos_line = int i, pos_character = int k\<rparr>,
                  range_end = \<lparr>pos_line = int i,
                               pos_character = int k + int (length (sym_name sy))\<rparr>\<rparr>)"
proof -
  define u where "u = doc_uri textDocument"
  define lines where "lines = split_lines (getText textDocument)"
  define syms where "syms = scan_symbols u (getText textDocument)"
  have syms_eq: "syms = concat (map (line_symbols u lines) [0..<length lines])"
    by (simp add: syms_def scan_symbols_def Let_def lines_def)
  have table: "symbolTable (st\<lparr>symbolTable := (symbolTable st)(u \<mapsto> syms)\<rparr>) u = Some syms"
    by simp
  have on_line: "filter (\<lambda>sy. pos_line (range_start (sym_range sy)) = int i) syms =
      (if i < length lines then line_symbols u lines i else [])" for i
  proof (cases "i < length lines")
    case True
    then show ?thesis
      unfolding syms_eq using filter_concat_upt [of "length lines" "line_symbols u lines"
          "\<lambda>sy. pos_line (range_start (sym_range sy))" i] line_symbols_key
      by simp
  next
    case False
    then show ?thesis
      unfolding syms_eq using filter_concat_upt_none [of "length lines" "line_symbols u lines"
          "\<lambda>sy. pos_line (range_start (sym_range sy))" i] line_symbols_key
      by simp
  qed
  have split_filter: "filter (\<lambda>sy. pos_line (range_start (sym_range sy)) = int i \<and> P sy) syms =
      filter P (filter (\<lambda>sy. pos_line (range_start (sym_range sy)) = int i) syms)" for i P
    by (simp add: conj_commute)
  have count: "length (filter (\<lambda>sy. pos_line (range_start (sym_range sy)) = int i
                                   \<and> sym_type sy = Variable) syms) \<le> 1
            \<and> length (filter (\<lambda>sy. pos_line (range_start (sym_range sy)) = int i
                                   \<and> sym_type sy = Function) syms) \<le> 1" for i
    unfolding split_filter on_line using line_symbols_filter [of u lines i] by simp
  have place: "\<exists>i k. i < length lines
             \<and> occurs_at (lines ! i) (sym_name sy) k
             \<and> (\<forall>j<k. \<not> occurs_at (lines ! i) (sym_name sy) j)
             \<and> indexOf (lines ! i) (sym_name sy) = int k
             \<and> sym_range sy =
                 \<lparr>range_start = \<lparr>pos_line = int i, pos_character = int k\<rparr>,
                  range_end = \<lparr>pos_line = int i,
                               pos_character = int k + int (length (sym_name sy))\<rparr>\<rparr>"
    if "sy \<in> set syms" for sy
  proof -
    from that obtain i where i: "i < length lines" "sy \<in> set (line_symbols u lines i)"
      unfolding syms_eq by auto
    from line_symbols_member [OF i(2)] obtain k where
      k: "index_of (lines ! i) (sym_name sy) = Some k"
         "sym_range sy = line_range i (int k) (int k + int (length (sym_name sy)))"
      by blast
    from index_of_Some [OF k(1)] indexOf_Some [OF k(1)] k(2) i(1) show ?thesis
      unfolding line_range_def by blast
  qed
  show ?thesis
    unfolding parseDocumentSymbols_scan u_def [symmetric] lines_def [symmetric]
      syms_def [symmetric]
    using table count place by blast
qed

theorem parse_one_symbol_per_shape_witness:
  "\<exists>st'. parseDocumentSymbols state0 two_lets = Inr st'
     \<and> symbolTable st' (doc_uri two_lets) =
         Some [\<lparr>sym_name = js ''t'',
                sym_range = \<lparr>range_start = \<lparr>pos_line = 0, pos_character = 2\<rparr>,
                              range_end = \<lparr>pos_line = 0, pos_character = 3\<rparr>\<rparr>,
                sym_type = Variable, sym_docUri = js ''file://two.js''\<rparr>]
     \<and> indexOf (split_lines (getText two_lets) ! 0) (js ''t'') = 2"
  using parse_one_symbol_per_shape [of state0 two_lets]
  by (auto simp: parseDocumentSymbols_scan two_lets_scan two_lets_lines line_range_def)

text \<open>
  C2.  After parsing a document, whatever the table held before, the entry of the
  document's identifier is exactly the symbols found by scanning its text, the other
  entries and the documents are as before, and every recorded symbol lies on a line of
  the text whose piece from the start to the end of the recorded range is the symbol's
  name.
\<close>

theorem parse_replaces_table:
  "\<exists>st'.
     parseDocumentSymbols st textDocument = Inr st'
     \<and> symbolTable st' (doc_uri textDocument) =
         Some (scan_symbols (doc_uri textDocument) (getText textDocument))
     \<and> (\<forall>u'. u' \<noteq> doc_uri textDocument \<longrightarrow> symbolTable st' u' = symbolTable st u')
     \<and> documents st' = documents st
     \<and> (\<forall>sy \<in> set (scan_symbols (doc_uri textDocument) (getText textDocument)).
           \<exists>i. i < length (split_lines (getText textDocument))
             \<and> pos_line (range_start (sym_range sy)) = int i
             \<and> pos_line (range_end (sym_range sy)) = int i
             \<and> substring (split_lines (getText textDocument) ! i)
                   (pos_character (range_start (sym_range sy)))
                   (pos_character (range_end (sym_range sy))) = sym_name sy)"
proof -
  define u where "u = doc_uri textDocument"
  define lines where "lines = split_lines (getText textDocument)"
  define syms where "syms = scan_symbols u (getText textDocument)"
  have syms_eq: "syms = concat (map (line_symbols u lines) [0..<length lines])"
    by (simp add: syms_def scan_symbols_def Let_def lines_def)
  have verbatim: "\<exists>i. i < length lines
             \<and> pos_line (range_start (sym_range sy)) = int i
             \<and> pos_line (range_end (sym_range sy)) = int i
             \<and> substring (lines ! i) (pos_character (range_start (sym_range sy)))
                   (pos_character (range_end (sym_range sy))) = sym_name sy"
    if "sy \<in> set syms" for sy
  proof -
    from that obtain i where i: "i < length lines" "sy \<in> set (line_symbols u lines i)"
      unfolding syms_eq by auto
    from line_symbols_member [OF i(2)] obtain k where
      k: "index_of (lines ! i) (sym_name sy) = Some k"
         "sym_range sy = line_range i (int k) (int k + int (length (sym_name sy)))"
      by blast
    have "occurs_at (lines ! i) (sym_name sy) k"
      using index_of_Some [OF k(1)] by simp
    then have "substring (lines ! i) (int k) (int k + int (length (sym_name sy))) = sym_name sy"
      by (rule substring_occurs)
    with i(1) k(2) show ?thesis by (auto simp: line_range_def)
  qed
  show ?thesis
    unfolding parseDocumentSymbols_scan u_def [symmetric] lines_def [symmetric]
      syms_def [symmetric]
    using verbatim by simp
qed

theorem parse_replaces_table_witness:
  "parseDocumentSymbols
     (state0\<lparr>symbolTable := [doc_uri sample_doc \<mapsto> [myFunc_symbol, myFunc_symbol]],
             documents := documents sample_state\<rparr>) sample_doc = Inr sample_state
   \<and> symbolTable sample_state (doc_uri sample_doc) = Some [myVar_symbol, myFunc_symbol]
   \<and> myFunc_symbol \<in> set (scan_symbols (doc_uri sample_doc) (getText sample_doc))
   \<and> substring (split_lines (getText sample_doc) ! 1) 9 15 = js ''myFunc''"
proof -
  have scan: "scan_symbols (doc_uri sample_doc) (getText sample_doc) =
      [myVar_symbol, myFunc_symbol]"
    by (simp add: sample_doc_def sample_scan)
  have piece: "substring (split_lines (getText sample_doc) ! 1) 9 15 = js ''myFunc''"
    by (simp add: sample_doc_def sample_lines) (simp add: substring_def clamp_index_def js_def)
  from parse_replaces_table [of
      "state0\<lparr>symbolTable := [doc_uri sample_doc \<mapsto> [myFunc_symbol, myFunc_symbol]],
              documents := documents sample_state\<rparr>" sample_doc]
  obtain st' where st': "parseDocumentSymbols
     (state0\<lparr>symbolTable := [doc_uri sample_doc \<mapsto> [myFunc_symbol, myFunc_symbol]],
             documents := documents sample_state\<rparr>) sample_doc = Inr st'"
     "symbolTable st' (doc_uri sample_doc) = Some [myVar_symbol, myFunc_symbol]"
    unfolding scan by blast
  have "st' = sample_state"
    using st'(1) unfolding parseDocumentSymbols_scan scan
    by (simp add: sample_doc_def state0_def sample_state_def)
  with st' scan piece show ?thesis by simp
qed

subsection \<open>Numbers\<close>

lemma bit_length_bound: "m < 2 ^ n \<Longrightarrow> bit_length m \<le> n"
proof (induction n arbitrary: m)
  case 0
  then show ?case by (simp add: bit_length.simps)
next
  case (Suc n)
  show ?case
  proof (cases "m = 0")
    case True
    then show ?thesis by (simp add: bit_length.simps)
  next
    case False
    have "m div 2 < 2 ^ n" using Suc.prems by auto
    from Suc.IH [OF this] False show ?thesis
      by (subst bit_length.simps) simp
  qed
qed

lemma round64_exact: "\<bar>x\<bar> < 2 ^ 53 \<Longrightarrow> round64 x = x"
proof -
  assume small: "\<bar>x\<bar> < 2 ^ 53"
  have "nat \<bar>x\<bar> < 2 ^ 53" using small by (simp add: nat_less_iff)
  then have "bit_length (nat \<bar>x\<bar>) - 53 = 0"
    using bit_length_bound [of "nat \<bar>x\<bar>" 53] by simp
  then show ?thesis
    by (simp add: round64_def Let_def mult_sgn_abs)
qed

lemma js_succ_exact: "- (2 ^ 53) \<le> e \<Longrightarrow> e < 2 ^ 53 - 1 \<Longrightarrow> js_succ e = e + 1"
  unfolding js_succ_def by (rule round64_exact) (simp add: abs_less_iff)

lemma js_pred_exact: "0 < e \<Longrightarrow> e \<le> 2 ^ 53 \<Longrightarrow> js_pred e = e - 1"
  unfolding js_pred_def by (rule round64_exact) (simp add: abs_less_iff)

lemma bit_length_1e17: "bit_length 99999999999999999 = 57"
  by (simp add: bit_length.simps)

lemma js_succ_stuck: "js_succ (- 100000000000000000) = - 100000000000000000"
  by (simp add: js_succ_def round64_def bit_length_1e17 Let_def)

subsection \<open>The two loops of the word extraction\<close>

lemma ident_test_undefined: "ident_test None"
  by (simp add: ident_test_def to_string_def js_def is_ident_def)

lemma ident_test_unit: "ident_test (Some c) = is_ident c"
  by (simp add: ident_test_def to_string_def)

lemma scan_end_stuck:
  assumes "e < int (length s)" "ident_test (js_nth s e)" "js_succ e = e"
  shows "scan_end s e = None"
proof (cases "scan_end s e")
  case None
  then show ?thesis .
next
  case (Some y)
  have "\<not> (s' = s \<and> e' = e)" if "scan_end s' e' = Some y'" for s' e' y'
  proof (rule scan_end.raw_induct [where P = "\<lambda>s' e' y'. \<not> (s' = s \<and> e' = e)", OF _ that])
    fix f s' e' y'
    assume IH: "\<And>a b y. f a b = Some y \<Longrightarrow> \<not> (a = s \<and> b = e)"
      and step: "(if e' < int (length s') \<and> ident_test (js_nth s' e')
                  then f s' (js_succ e') else Some e') = Some y'"
    show "\<not> (s' = s \<and> e' = e)"
    proof
      assume "s' = s \<and> e' = e"
      with step assms have "f s e = Some y'" by simp
      from IH [OF this] show False by simp
    qed
  qed
  with Some show ?thesis by blast
qed

lemma scan_end_run:
  assumes "length s < 2 ^ 53" "e \<le> length s"
  shows "\<exists>R. scan_end s (int e) = Some (int R) \<and> e \<le> R \<and> R \<le> length s
           \<and> (\<forall>k. e \<le> k \<and> k < R \<longrightarrow> is_ident (s ! k))
           \<and> (R = length s \<or> \<not> is_ident (s ! R))"
  using assms(2)
proof (induction "length s - e" arbitrary: e)
  case 0
  then have "e = length s" by simp
  then show ?case by (subst scan_end.simps) auto
next
  case (Suc d)
  then have lt: "e < length s" by simp
  then have nth: "js_nth s (int e) = Some (s ! e)" by (simp add: js_nth_def)
  show ?case
  proof (cases "is_ident (s ! e)")
    case False
    with nth lt show ?thesis
      by (subst scan_end.simps) (auto simp: ident_test_unit)
  next
    case True
    have "js_succ (int e) = int e + 1"
      by (rule js_succ_exact) (use lt assms(1) in simp_all)
    then have step: "scan_end s (int e) = scan_end s (int (Suc e))"
      using True nth lt by (subst scan_end.simps) (simp add: ident_test_unit add.commute)
    from Suc.hyps(2) have "d = length s - Suc e" by simp
    from Suc.hyps(1) [OF this] lt obtain R where
      R: "scan_end s (int (Suc e)) = Some (int R)" "Suc e \<le> R" "R \<le> length s"
         "\<forall>k. Suc e \<le> k \<and> k < R \<longrightarrow> is_ident (s ! k)"
         "R = length s \<or> \<not> is_ident (s ! R)"
      by auto
    have "is_ident (s ! k)" if "e \<le> k" "k < R" for k
      using that True R(4) by (cases "k = e") auto
    with R step show ?thesis by (intro exI [of _ R]) auto
  qed
qed

lemma scan_end_negative:
  assumes "- (2 ^ 53) \<le> e" "e < 0"
  shows "scan_end s e = scan_end s 0"
  using assms
proof (induction "nat (- e)" arbitrary: e)
  case 0
  then show ?case by simp
next
  case (Suc d)
  have succ: "js_succ e = e + 1"
    by (rule js_succ_exact) (use Suc.prems in simp_all)
  have "js_nth s e = None" using Suc.prems by (simp add: js_nth_def)
  then have step: "scan_end s e = scan_end s (e + 1)"
    using Suc.prems succ by (subst scan_end.simps) (simp add: ident_test_undefined)
  show ?case
  proof (cases "e + 1 = 0")
    case True
    with step show ?thesis by simp
  next
    case False
    have "d = nat (- (e + 1))" using Suc.hyps(2) by simp
    from Suc.hyps(1) [OF this] Suc.prems False step show ?thesis by simp
  qed
qed

lemma scan_start_run:
  assumes "length s < 2 ^ 53" "c \<le> length s"
  shows "\<exists>L. scan_start s (int c) = Some (int L) \<and> L \<le> c
           \<and> (\<forall>k. L \<le> k \<and> k < c \<longrightarrow> is_ident (s ! k))
           \<and> (L = 0 \<or> \<not> is_ident (s ! (L - 1)))"
  using assms(2)
proof (induction c)
  case 0
  then show ?case by (subst scan_start.simps) simp
next
  case (Suc c)
  then have lt: "c < length s" by simp
  then have nth: "js_nth s (int (Suc c) - 1) = Some (s ! c)" by (simp add: js_nth_def)
  show ?case
  proof (cases "is_ident (s ! c)")
    case False
    with nth show ?thesis
      by (subst scan_start.simps) (auto simp: ident_test_unit simp del: of_nat_Suc)
  next
    case True
    have "js_pred (int (Suc c)) = int (Suc c) - 1"
      by (rule js_pred_exact) (use lt assms(1) in simp_all)
    then have step: "scan_start s (int (Suc c)) = scan_start s (int c)"
      using True nth by (subst scan_start.simps) (simp add: ident_test_unit)
    from Suc.IH lt obtain L where
      L: "scan_start s (int c) = Some (int L)" "L \<le> c"
         "\<forall>k. L \<le> k \<and> k < c \<longrightarrow> is_ident (s ! k)"
         "L = 0 \<or> \<not> is_ident (s ! (L - 1))"
      by auto
    have "is_ident (s ! k)" if "L \<le> k" "k < Suc c" for k
      using that True L(3) by (cases "k = c") auto
    with L step show ?thesis by (intro exI [of _ L]) auto
  qed
qed

lemma scan_start_nonpositive: "c \<le> 0 \<Longrightarrow> scan_start s c = Some c"
  by (subst scan_start.simps) simp

lemma substring_take_drop:
  "L \<le> R \<Longrightarrow> R \<le> length s \<Longrightarrow> substring s (int L) (int R) = take (R - L) (drop L s)"
  by (simp add: substring_def clamp_index_def Let_def min_def max_def)

lemma substring_negative:
  "a \<le> 0 \<Longrightarrow> R \<le> length s \<Longrightarrow> substring s a (int R) = take R s"
  by (simp add: substring_def clamp_index_def Let_def)

lemma cons_first_lengths: "sum_list (map length (cons_first c ls)) = Suc (sum_list (map length ls))"
  by (cases ls) simp_all

lemma split_lines_lengths: "sum_list (map length (split_lines t)) \<le> length t"
proof (induction t rule: split_lines.induct)
  case 1
  then show ?case by simp
next
  case (2 c cs)
  show ?case
  proof (cases "c = LF")
    case True
    with 2 show ?thesis by simp
  next
    case notLF: False
    show ?thesis
    proof (cases "c = CR")
      case False
      with notLF 2 show ?thesis by (simp add: cons_first_lengths)
    next
      case True
      show ?thesis
      proof (cases cs)
        case Nil
        with True notLF show ?thesis by simp
      next
        case (Cons d ds)
        show ?thesis
        proof (cases "d = LF")
          case True
          with \<open>c = CR\<close> notLF Cons "2.IH" show ?thesis by simp
        next
          case False
          with \<open>c = CR\<close> notLF Cons "2.IH" show ?thesis
            by (simp add: cons_first_lengths)
        qed
      qed
    qed
  qed
qed

lemma split_lines_line_length: "l \<in> set (split_lines t) \<Longrightarrow> length l \<le> length t"
proof -
  assume "l \<in> set (split_lines t)"
  then have "length l \<in> set (map length (split_lines t))" by simp
  then have "length l \<le> sum_list (map length (split_lines t))"
    by (rule member_le_sum_list) simp
  with split_lines_lengths [of t] show ?thesis by simp
qed

subsection \<open>Word extraction\<close>

lemma getWordAtPosition_negative_line:
  "ln < 0 \<Longrightarrow> getWordAtPosition textDocument ln character = Some (Inl TypeError)"
  by (simp add: getWordAtPosition_def Let_def js_nth_def)

lemma getWordAtPosition_inside:
  assumes "length (getText textDocument) < 2 ^ 53"
    and "i < length (split_lines (getText textDocument))"
    and "c < length (split_lines (getText textDocument) ! i)"
  shows "\<exists>L R. L \<le> c \<and> c \<le> R \<and> R \<le> length (split_lines (getText textDocument) ! i)
      \<and> (\<forall>k. L \<le> k \<and> k < R \<longrightarrow> is_ident (split_lines (getText textDocument) ! i ! k))
      \<and> (L = 0 \<or> \<not> is_ident (split_lines (getText textDocument) ! i ! (L - 1)))
      \<and> (R = length (split_lines (getText textDocument) ! i)
           \<or> \<not> is_ident (split_lines (getText textDocument) ! i ! R))
      \<and> getWordAtPosition textDocument (int i) (int c) =
           Some (Inr (Some (take (R - L) (drop L (split_lines (getText textDocument) ! i)))))"
proof -
  define s where "s = split_lines (getText textDocument) ! i"
  have "s \<in> set (split_lines (getText textDocument))"
    using assms(2) by (simp add: s_def)
  then have len: "length s < 2 ^ 53"
    using split_lines_line_length [of s "getText textDocument"] assms(1) by simp
  have c: "c < length s" using assms(3) by (simp add: s_def)
  from scan_start_run [OF len, of c] c obtain L where
    L: "scan_start s (int c) = Some (int L)" "L \<le> c"
       "\<forall>k. L \<le> k \<and> k < c \<longrightarrow> is_ident (s ! k)"
       "L = 0 \<or> \<not> is_ident (s ! (L - 1))"
    by auto
  from scan_end_run [OF len, of c] c obtain R where
    R: "scan_end s (int c) = Some (int R)" "c \<le> R" "R \<le> length s"
       "\<forall>k. c \<le> k \<and> k < R \<longrightarrow> is_ident (s ! k)"
       "R = length s \<or> \<not> is_ident (s ! R)"
    by auto
  have run: "is_ident (s ! k)" if "L \<le> k" "k < R" for k
    using that L(3) R(4) by (cases "k < c") auto
  have "L \<le> R" using L(2) R(2) by simp
  then have word: "substring s (int L) (int R) = take (R - L) (drop L s)"
    using R(3) by (rule substring_take_drop)
  have "getWordAtPosition textDocument (int i) (int c) =
      Some (Inr (Some (take (R - L) (drop L s))))"
    using assms(2) c L(1) R(1) word
    by (simp add: getWordAtPosition_def Let_def js_nth_def s_def)
  with L(2,4) R(2,3,5) run show ?thesis
    unfolding s_def by blast
qed

lemma getWordAtPosition_returns:
  assumes "length (getText textDocument) < 2 ^ 53" "0 \<le> ln" "- (2 ^ 53) \<le> character"
  shows "\<exists>r. getWordAtPosition textDocument ln character = Some (Inr r)"
proof (cases "ln < int (length (split_lines (getText textDocument)))")
  case False
  then show ?thesis by (simp add: getWordAtPosition_def Let_def)
next
  case True
  define i where "i = nat ln"
  define s where "s = split_lines (getText textDocument) ! i"
  have i: "i < length (split_lines (getText textDocument))" "ln = int i"
    using True assms(2) by (simp_all add: i_def)
  show ?thesis
  proof (cases "character < int (length s)")
    case False
    then show ?thesis
      using i by (simp add: getWordAtPosition_def Let_def js_nth_def s_def)
  next
    case inside: True
    show ?thesis
    proof (cases "0 \<le> character")
      case True
      then have "nat character < length (split_lines (getText textDocument) ! i)"
        using inside by (simp add: s_def)
      from getWordAtPosition_inside [OF assms(1) i(1) this] True i(2)
      show ?thesis by auto
    next
      case False
      have "s \<in> set (split_lines (getText textDocument))"
        using i(1) by (simp add: s_def)
      then have len: "length s < 2 ^ 53"
        using split_lines_line_length [of s "getText textDocument"] assms(1) by simp
      have start: "scan_start s character = Some character"
        using False by (simp add: scan_start_nonpositive)
      have "scan_end s character = scan_end s 0"
        using False assms(3) by (simp add: scan_end_negative)
      with scan_end_run [OF len, of 0] obtain R where "scan_end s character = Some (int R)"
        by auto
      with start inside i show ?thesis
        by (simp add: getWordAtPosition_def Let_def js_nth_def s_def)
    qed
  qed
qed

lemma getWordAtPosition_diverges:
  assumes "i < length (split_lines (getText textDocument))"
  shows "getWordAtPosition textDocument (int i) (- 100000000000000000) = None"
proof -
  define s where "s = split_lines (getText textDocument) ! i"
  have start: "scan_start s (- 100000000000000000) = Some (- 100000000000000000)"
    by (simp add: scan_start_nonpositive)
  have "scan_end s (- 100000000000000000) = None"
    by (rule scan_end_stuck) (simp_all add: js_nth_def ident_test_undefined js_succ_stuck)
  with start assms show ?thesis
    by (simp add: getWordAtPosition_def Let_def js_nth_def s_def)
qed

lemma sample_word_negative_line: "getWordAtPosition sample_doc (- 1) 0 = Some (Inl TypeError)"
  by (rule getWordAtPosition_negative_line) simp

lemma sample_word_negative_character:
  "getWordAtPosition sample_doc 0 (- 1) = Some (Inr (Some (js ''let'')))"
  by (simp add: getWordAtPosition_def sample_doc_def sample_lines js_nth_def)
     (simp add: scan_start.simps scan_end.simps js_succ_exact js_pred_exact js_nth_def
        ident_test_def to_string_def js_def is_ident_def substring_def clamp_index_def)

lemma sample_word_use: "getWordAtPosition sample_doc 2 16 = Some (Inr (Some (js ''myVar'')))"
  by (simp add: getWordAtPosition_def sample_doc_def sample_lines js_nth_def)
     (simp add: scan_start.simps scan_end.simps js_succ_exact js_pred_exact js_nth_def
        ident_test_def to_string_def js_def is_ident_def substring_def clamp_index_def)

lemma sample_word_declared: "getWordAtPosition sample_doc 0 6 = Some (Inr (Some (js ''myVar'')))"
  by (simp add: getWordAtPosition_def sample_doc_def sample_lines js_nth_def)
     (simp add: scan_start.simps scan_end.simps js_succ_exact js_pred_exact js_nth_def
        ident_test_def to_string_def js_def is_ident_def substring_def clamp_index_def)

text \<open>
  The word at a position outside the text is not always \<open>null\<close>: a negative line
  raises, and a negative character on a line that begins with an identifier gives that
  identifier.
\<close>

theorem word_out_of_bounds_counterexample:
  "getWordAtPosition sample_doc (- 1) 0 = Some (Inl TypeError)
   \<and> getWordAtPosition sample_doc 0 (- 1) = Some (Inr (Some (js ''let'')))
   \<and> length (split_lines (getText sample_doc) ! 0) = 15"
  by (simp add: sample_word_negative_line sample_word_negative_character)
     (simp add: sample_doc_def sample_lines js_def)

text \<open>
  C3, for lines from 0 on.  When the line is at least the number of lines, or the
  character is at least the length of the line (the end of the line included), the word
  is \<open>null\<close>, returned and not raised.
\<close>

theorem word_out_of_bounds:
  "0 \<le> ln \<Longrightarrow>
     int (length (split_lines (getText textDocument))) \<le> ln
     \<or> (ln < int (length (split_lines (getText textDocument)))
        \<and> int (length (split_lines (getText textDocument) ! nat ln)) \<le> character) \<Longrightarrow>
     getWordAtPosition textDocument ln character = Some (Inr None)"
  by (auto simp: getWordAtPosition_def Let_def js_nth_def)

theorem word_out_of_bounds_witness:
  "getWordAtPosition sample_doc 4 0 = Some (Inr None)
   \<and> getWordAtPosition sample_doc 0 15 = Some (Inr None)
   \<and> length (split_lines (getText sample_doc)) = 4
   \<and> length (split_lines (getText sample_doc) ! 0) = 15"
proof -
  have lines: "length (split_lines (getText sample_doc)) = 4"
    "length (split_lines (getText sample_doc) ! 0) = 15"
    by (simp_all add: sample_doc_def sample_lines js_def)
  have "getWordAtPosition sample_doc 4 0 = Some (Inr None)"
    by (rule word_out_of_bounds) (simp_all add: lines)
  moreover have "getWordAtPosition sample_doc 0 15 = Some (Inr None)"
    by (rule word_out_of_bounds) (simp_all add: lines)
  ultimately show ?thesis using lines by simp
qed

subsection \<open>Reading the table\<close>

lemma docSymbols_own: "symbolTable st u = Some syms \<Longrightarrow> docSymbols st u = Inr syms"
  by (simp add: docSymbols_def table_get_def)

lemma docSymbols_plain:
  "symbolTable st u = None \<Longrightarrow> symbolTable st (js ''__proto__'') = None \<Longrightarrow>
     u \<notin> set object_prototype_names \<Longrightarrow> docSymbols st u = Inr []"
  by (simp add: docSymbols_def table_get_def)

lemma docSymbols_inherited:
  "symbolTable st u = None \<Longrightarrow> symbolTable st (js ''__proto__'') = None \<Longrightarrow>
     u \<in> set object_prototype_names \<Longrightarrow> docSymbols st u = Inl TypeError"
  by (simp add: docSymbols_def table_get_def)

lemma constructor_inherited: "js ''constructor'' \<in> set object_prototype_names"
  by (simp add: object_prototype_names_def)

lemma sample_uri_plain: "js ''file://defTest.js'' \<notin> set object_prototype_names"
  by (simp add: object_prototype_names_def js_def)

subsection \<open>Definition\<close>

lemma find_first_index:
  "find P xs = Some x \<longleftrightarrow>
     (\<exists>i<length xs. xs ! i = x \<and> P (xs ! i) \<and> (\<forall>j<i. \<not> P (xs ! j)))"
  by (auto simp: find_Some_iff)

lemma handleDefinition_word:
  assumes "documents st u = Some doc"
    and "getWordAtPosition doc ln character = Some (Inr (Some word))" "word \<noteq> []"
    and "docSymbols st u = Inr syms"
  shows "handleDefinition st u ln character =
     (case find (\<lambda>sy. sym_name sy = word) syms of
        None \<Rightarrow> Some (Inr None)
      | Some foundSymbol \<Rightarrow>
          Some (Inr (Some \<lparr>loc_uri = sym_docUri foundSymbol,
                            loc_range = sym_range foundSymbol\<rparr>)))"
  using assms by (simp add: handleDefinition_def)

lemma constructor_word:
  "getWordAtPosition constructor_doc 0 6 = Some (Inr (Some (js ''myVar'')))"
  by (simp add: getWordAtPosition_def constructor_doc_def sample_lines js_nth_def)
     (simp add: scan_start.simps scan_end.simps js_succ_exact js_pred_exact js_nth_def
        ident_test_def to_string_def js_def is_ident_def substring_def clamp_index_def)

text \<open>
  \<open>handleDefinition\<close> does not always answer \<open>null\<close> or a symbol: at a negative line it
  raises, at the character \<open>-10^17\<close> of a line it does not return, and for a document
  held under an inherited key with no entry of the table it raises at a word.
\<close>

theorem definition_first_symbol_counterexample:
  "documents sample_state (js ''file://defTest.js'') = Some sample_doc
   \<and> handleDefinition sample_state (js ''file://defTest.js'') (- 1) 0 = Some (Inl TypeError)
   \<and> handleDefinition sample_state (js ''file://defTest.js'') 0 (- 100000000000000000) = None
   \<and> documents injected_state (js ''constructor'') = Some constructor_doc
   \<and> getWordAtPosition constructor_doc 0 6 = Some (Inr (Some (js ''myVar'')))
   \<and> handleDefinition injected_state (js ''constructor'') 0 6 = Some (Inl TypeError)"
proof -
  have doc: "documents sample_state (js ''file://defTest.js'') = Some sample_doc"
    by (simp add: sample_state_def)
  have raises: "handleDefinition sample_state (js ''file://defTest.js'') (- 1) 0 =
      Some (Inl TypeError)"
    using doc sample_word_negative_line by (simp add: handleDefinition_def)
  have "(0::nat) < length (split_lines (getText sample_doc))"
    by (simp add: sample_doc_def sample_lines)
  from getWordAtPosition_diverges [OF this]
  have hangs: "handleDefinition sample_state (js ''file://defTest.js'') 0
      (- 100000000000000000) = None"
    using doc by (simp add: handleDefinition_def)
  have held: "documents injected_state (js ''constructor'') = Some constructor_doc"
    by (simp add: injected_state_def)
  have "docSymbols injected_state (js ''constructor'') = Inl TypeError"
    by (rule docSymbols_inherited) (simp_all add: injected_state_def constructor_inherited)
  then have inherited: "handleDefinition injected_state (js ''constructor'') 0 6 =
      Some (Inl TypeError)"
    using held constructor_word by (simp add: handleDefinition_def js_def)
  from doc raises hangs held constructor_word inherited show ?thesis by simp
qed

text \<open>
  C5, for lines from 0 on, characters from \<open>-2^53\<close> on and a table that answers for the
  identifier with an array or with nothing.  \<open>handleDefinition\<close> answers \<open>null\<close> for an
  unknown document.  For a known document, whose text has fewer than \<open>2^53\<close> code units
  as every string has, the word at such a position is always returned, and at a
  position inside the text it is the longest run of identifier characters around the
  position.  The answer is \<open>null\<close> when the word is \<open>null\<close> or empty; else, when the
  identifier has an entry in the table, or has none and names no inherited property of
  the table object, it is the location of the first symbol of the entry, in its order,
  whose name is the word, and \<open>null\<close> when no symbol of the entry has that name.
\<close>

theorem definition_first_symbol:
  "(documents st u = None \<longrightarrow> handleDefinition st u ln character = Some (Inr None))
   \<and> (\<forall>doc. documents st u = Some doc \<longrightarrow>
        (length (getText doc) < 2 ^ 53 \<and> 0 \<le> ln \<and> - (2 ^ 53) \<le> character
           \<longrightarrow> (\<exists>r. getWordAtPosition doc ln character = Some (Inr r)))
      \<and> (\<forall>i c. length (getText doc) < 2 ^ 53 \<and> ln = int i \<and> character = int c
             \<and> i < length (split_lines (getText doc))
             \<and> c < length (split_lines (getText doc) ! i) \<longrightarrow>
           (\<exists>L R. L \<le> c \<and> c \<le> R \<and> R \<le> length (split_lines (getText doc) ! i)
              \<and> (\<forall>k. L \<le> k \<and> k < R \<longrightarrow> is_ident (split_lines (getText doc) ! i ! k))
              \<and> (L = 0 \<or> \<not> is_ident (split_lines (getText doc) ! i ! (L - 1)))
              \<and> (R = length (split_lines (getText doc) ! i)
                   \<or> \<not> is_ident (split_lines (getText doc) ! i ! R))
              \<and> getWordAtPosition doc ln character =
                   Some (Inr (Some (take (R - L) (drop L (split_lines (getText doc) ! i)))))))
      \<and> (getWordAtPosition doc ln character = Some (Inr None)
           \<or> getWordAtPosition doc ln character = Some (Inr (Some []))
           \<longrightarrow> handleDefinition st u ln character = Some (Inr None))
      \<and> (\<forall>word syms.
            getWordAtPosition doc ln character = Some (Inr (Some word)) \<and> word \<noteq> []
            \<and> (symbolTable st u = Some syms
                \<or> (syms = [] \<and> symbolTable st u = None
                    \<and> symbolTable st (js ''__proto__'') = None
                    \<and> u \<notin> set object_prototype_names)) \<longrightarrow>
            ((\<forall>sy \<in> set syms. sym_name sy \<noteq> word)
               \<longrightarrow> handleDefinition st u ln character = Some (Inr None))
          \<and> (\<forall>i<length syms.
                sym_name (syms ! i) = word \<and> (\<forall>j<i. sym_name (syms ! j) \<noteq> word)
                \<longrightarrow> handleDefinition st u ln character =
                      Some (Inr (Some \<lparr>loc_uri = sym_docUri (syms ! i),
                                        loc_range = sym_range (syms ! i)\<rparr>)))))"
proof (intro conjI allI impI)
  assume "documents st u = None"
  then show "handleDefinition st u ln character = Some (Inr None)"
    by (simp add: handleDefinition_def)
next
  fix doc
  assume "documents st u = Some doc"
    "length (getText doc) < 2 ^ 53 \<and> 0 \<le> ln \<and> - (2 ^ 53) \<le> character"
  then show "\<exists>r. getWordAtPosition doc ln character = Some (Inr r)"
    by (simp add: getWordAtPosition_returns)
next
  fix doc i c
  assume "documents st u = Some doc"
    and inside: "length (getText doc) < 2 ^ 53 \<and> ln = int i \<and> character = int c
             \<and> i < length (split_lines (getText doc))
             \<and> c < length (split_lines (getText doc) ! i)"
  from inside have "length (getText doc) < 2 ^ 53" "i < length (split_lines (getText doc))"
    "c < length (split_lines (getText doc) ! i)"
    by simp_all
  from getWordAtPosition_inside [OF this] inside
  show "\<exists>L R. L \<le> c \<and> c \<le> R \<and> R \<le> length (split_lines (getText doc) ! i)
              \<and> (\<forall>k. L \<le> k \<and> k < R \<longrightarrow> is_ident (split_lines (getText doc) ! i ! k))
              \<and> (L = 0 \<or> \<not> is_ident (split_lines (getText doc) ! i ! (L - 1)))
              \<and> (R = length (split_lines (getText doc) ! i)
                   \<or> \<not> is_ident (split_lines (getText doc) ! i ! R))
              \<and> getWordAtPosition doc ln character =
                   Some (Inr (Some (take (R - L) (drop L (split_lines (getText doc) ! i)))))"
    by simp
next
  fix doc
  assume "documents st u = Some doc"
    "getWordAtPosition doc ln character = Some (Inr None)
       \<or> getWordAtPosition doc ln character = Some (Inr (Some []))"
  then show "handleDefinition st u ln character = Some (Inr None)"
    by (auto simp: handleDefinition_def)
next
  fix doc word syms
  assume doc: "documents st u = Some doc"
    and word: "getWordAtPosition doc ln character = Some (Inr (Some word)) \<and> word \<noteq> []
            \<and> (symbolTable st u = Some syms
                \<or> (syms = [] \<and> symbolTable st u = None
                    \<and> symbolTable st (js ''__proto__'') = None
                    \<and> u \<notin> set object_prototype_names))"
    and none: "\<forall>sy \<in> set syms. sym_name sy \<noteq> word"
  from word have read: "docSymbols st u = Inr syms"
    using docSymbols_own docSymbols_plain by blast
  from none have "find (\<lambda>sy. sym_name sy = word) syms = None"
    by (simp add: find_None_iff)
  with handleDefinition_word [OF doc _ _ read, of ln character word] word
  show "handleDefinition st u ln character = Some (Inr None)"
    by simp
next
  fix doc word syms i
  assume doc: "documents st u = Some doc"
    and word: "getWordAtPosition doc ln character = Some (Inr (Some word)) \<and> word \<noteq> []
            \<and> (symbolTable st u = Some syms
                \<or> (syms = [] \<and> symbolTable st u = None
                    \<and> symbolTable st (js ''__proto__'') = None
                    \<and> u \<notin> set object_prototype_names))"
    and i: "i < length syms"
    and first: "sym_name (syms ! i) = word \<and> (\<forall>j<i. sym_name (syms ! j) \<noteq> word)"
  from word have read: "docSymbols st u = Inr syms"
    using docSymbols_own docSymbols_plain by blast
  from i first have "find (\<lambda>sy. sym_name sy = word) syms = Some (syms ! i)"
    unfolding find_first_index by blast
  with handleDefinition_word [OF doc _ _ read, of ln character word] word
  show "handleDefinition st u ln character =
      Some (Inr (Some \<lparr>loc_uri = sym_docUri (syms ! i), loc_range = sym_range (syms ! i)\<rparr>))"
    by simp
qed

theorem definition_first_symbol_witness:
  "documents sample_state (js ''file://defTest.js'') = Some sample_doc
   \<and> getWordAtPosition sample_doc 0 6 = Some (Inr (Some (js ''myVar'')))
   \<and> js ''myVar'' \<noteq> []
   \<and> symbolTable sample_state (js ''file://defTest.js'') = Some [myVar_symbol, myFunc_symbol]
   \<and> sym_name ([myVar_symbol, myFunc_symbol] ! 0) = js ''myVar''
   \<and> handleDefinition sample_state (js ''file://defTest.js'') 0 6 =
       Some (Inr (Some \<lparr>loc_uri = js ''file://defTest.js'', loc_range = line_range 0 4 9\<rparr>))"
proof -
  have doc: "documents sample_state (js ''file://defTest.js'') = Some sample_doc"
    by (simp add: sample_state_def)
  have ne: "js ''myVar'' \<noteq> []" by (simp add: js_def)
  have table: "symbolTable sample_state (js ''file://defTest.js'') =
      Some [myVar_symbol, myFunc_symbol]"
    by (simp add: sample_state_def)
  have first: "(0::nat) < length [myVar_symbol, myFunc_symbol]"
    "sym_name ([myVar_symbol, myFunc_symbol] ! 0) = js ''myVar''"
    by (simp_all add: myVar_symbol_def)
  from definition_first_symbol [of sample_state "js ''file://defTest.js''" 0 6]
    doc sample_word_declared ne table first
  have "handleDefinition sample_state (js ''file://defTest.js'') 0 6 =
      Some (Inr (Some \<lparr>loc_uri = sym_docUri ([myVar_symbol, myFunc_symbol] ! 0),
                        loc_range = sym_range ([myVar_symbol, myFunc_symbol] ! 0)\<rparr>))"
    by (metis not_less_zero)
  then show ?thesis
    using doc sample_word_declared ne table first by (simp add: myVar_symbol_def)
qed

subsection \<open>References\<close>

lemma references_loop_concat:
  "references_loop u word lines i acc =
     acc @ concat (map (line_references u word lines) [i..<length lines])"
proof (induction u word lines i acc rule: references_loop.induct)
  case (1 u word lines i acc)
  show ?case
  proof (cases "i < length lines")
    case True
    show ?thesis
    proof (cases "index_of (lines ! i) word")
      case None
      then have "indexOf (lines ! i) word = - 1" by (simp add: indexOf_def)
      with True None "1.IH" show ?thesis
        by (subst references_loop.simps)
           (simp add: Let_def upt_conv_Cons line_references_def [of u word lines i])
    next
      case (Some k)
      then have "indexOf (lines ! i) word = int k" by (simp add: indexOf_def)
      with True Some "1.IH" show ?thesis
        by (subst references_loop.simps)
           (simp add: Let_def upt_conv_Cons line_references_def [of u word lines i])
    qed
  next
    case False
    then show ?thesis by (subst references_loop.simps) simp
  qed
qed

lemma line_references_key:
  "l \<in> set (line_references u word lines i) \<Longrightarrow> pos_line (range_start (loc_range l)) = int i"
  by (auto simp: line_references_def line_range_def split: option.splits)

lemma handleReferences_word:
  "documents st u = Some doc \<Longrightarrow> getWordAtPosition doc ln character = Some (Inr (Some word)) \<Longrightarrow>
     word \<noteq> [] \<Longrightarrow>
     handleReferences st u ln character =
       Some (Inr (concat (map (line_references u word (split_lines (getText doc)))
                        [0..<length (split_lines (getText doc))])))"
  by (simp add: handleReferences_def references_loop_concat)

text \<open>
  C6.  When the document is known and the word at the position is a non-empty word,
  \<open>handleReferences\<close> returns locations in the document, each on a line of the text;
  on a line where the word does not occur there is none, and on a line where it occurs
  there is exactly one, from the first index at which the word occurs to that index
  plus the length of the word.  So every line holding the word has a location, and for
  a symbol that scanning the text declares under that name the location on its line is
  the declared range itself.
\<close>

theorem references_first_per_line:
  "documents st u = Some doc \<Longrightarrow> getWordAtPosition doc ln character = Some (Inr (Some word)) \<Longrightarrow>
     word \<noteq> [] \<Longrightarrow>
     \<exists>locations.
       handleReferences st u ln character = Some (Inr locations)
       \<and> (\<forall>l \<in> set locations. loc_uri l = u
            \<and> (\<exists>i<length (split_lines (getText doc)).
                  pos_line (range_start (loc_range l)) = int i))
       \<and> (\<forall>i<length (split_lines (getText doc)).
            ((\<forall>k. \<not> occurs_at (split_lines (getText doc) ! i) word k) \<longrightarrow>
               filter (\<lambda>l. pos_line (range_start (loc_range l)) = int i) locations = [])
          \<and> (\<forall>k. occurs_at (split_lines (getText doc) ! i) word k
                  \<and> (\<forall>j<k. \<not> occurs_at (split_lines (getText doc) ! i) word j) \<longrightarrow>
               filter (\<lambda>l. pos_line (range_start (loc_range l)) = int i) locations =
                 [\<lparr>loc_uri = u,
                   loc_range = \<lparr>range_start = \<lparr>pos_line = int i, pos_character = int k\<rparr>,
                                 range_end = \<lparr>pos_line = int i,
                                              pos_character = int k + int (length word)\<rparr>\<rparr>\<rparr>])
          \<and> ((\<exists>k. occurs_at (split_lines (getText doc) ! i) word k) \<longrightarrow>
               (\<exists>l \<in> set locations. pos_line (range_start (loc_range l)) = int i)))
       \<and> (\<forall>sy \<in> set (scan_symbols u (getText doc)). sym_name sy = word \<longrightarrow>
            \<lparr>loc_uri = u, loc_range = sym_range sy\<rparr> \<in> set locations)"
proof -
  assume doc: "documents st u = Some doc"
    and word: "getWordAtPosition doc ln character = Some (Inr (Some word))" "word \<noteq> []"
  define lines where "lines = split_lines (getText doc)"
  define locations where
    "locations = concat (map (line_references u word lines) [0..<length lines])"
  have result: "handleReferences st u ln character = Some (Inr locations)"
    using handleReferences_word [OF doc word] by (simp add: locations_def lines_def)
  have per_line: "filter (\<lambda>l. pos_line (range_start (loc_range l)) = int i) locations =
      line_references u word lines i" if "i < length lines" for i
    unfolding locations_def
    by (rule filter_concat_upt) (use that line_references_key in auto)
  have member: "loc_uri l = u \<and> (\<exists>i<length lines. pos_line (range_start (loc_range l)) = int i)"
    if "l \<in> set locations" for l
  proof -
    from that obtain i where i: "i < length lines" "l \<in> set (line_references u word lines i)"
      unfolding locations_def by auto
    then show ?thesis
      by (auto simp: line_references_def line_range_def split: option.splits)
  qed
  have absent: "filter (\<lambda>l. pos_line (range_start (loc_range l)) = int i) locations = []"
    if "i < length lines" "\<forall>k. \<not> occurs_at (lines ! i) word k" for i
  proof -
    have "index_of (lines ! i) word = None"
      using that(2) index_of_Some [of "lines ! i" word] by (cases "index_of (lines ! i) word") auto
    then show ?thesis using per_line [OF that(1)] by (simp add: line_references_def)
  qed
  have found: "index_of (lines ! i) word = Some k"
    if "occurs_at (lines ! i) word k" "\<forall>j<k. \<not> occurs_at (lines ! i) word j" for i k
  proof -
    from occurs_index_of [OF that(1)] obtain k' where k': "index_of (lines ! i) word = Some k'"
      by blast
    from index_of_Some [OF k'] that have "k' = k"
      by (meson linorder_neqE_nat)
    with k' show ?thesis by simp
  qed
  have present: "filter (\<lambda>l. pos_line (range_start (loc_range l)) = int i) locations =
      [\<lparr>loc_uri = u,
        loc_range = \<lparr>range_start = \<lparr>pos_line = int i, pos_character = int k\<rparr>,
                      range_end = \<lparr>pos_line = int i,
                                   pos_character = int k + int (length word)\<rparr>\<rparr>\<rparr>]"
    if "i < length lines" "occurs_at (lines ! i) word k"
       "\<forall>j<k. \<not> occurs_at (lines ! i) word j" for i k
    using per_line [OF that(1)] found [OF that(2,3)]
    by (simp add: line_references_def line_range_def)
  have some: "\<exists>l \<in> set locations. pos_line (range_start (loc_range l)) = int i"
    if "i < length lines" "\<exists>k. occurs_at (lines ! i) word k" for i
  proof -
    from that(2) obtain k where "occurs_at (lines ! i) word k" by blast
    from occurs_index_of [OF this] obtain k' where "index_of (lines ! i) word = Some k'"
      by blast
    then have "line_references u word lines i \<noteq> []" by (simp add: line_references_def)
    then obtain l where "l \<in> set (line_references u word lines i)"
      by (cases "line_references u word lines i") auto
    then have "l \<in> set locations" "pos_line (range_start (loc_range l)) = int i"
      using that(1) line_references_key by (auto simp: locations_def)
    then show ?thesis by blast
  qed
  have declared_line: "\<lparr>loc_uri = u, loc_range = sym_range sy\<rparr> \<in> set locations"
    if "sy \<in> set (scan_symbols u (getText doc))" "sym_name sy = word" for sy
  proof -
    from that(1) obtain i where i: "i < length lines" "sy \<in> set (line_symbols u lines i)"
      by (auto simp: scan_symbols_def Let_def lines_def)
    from line_symbols_member [OF i(2)] that(2) obtain k where
      k: "index_of (lines ! i) word = Some k"
         "sym_range sy = line_range i (int k) (int k + int (length word))"
      by blast
    then have "\<lparr>loc_uri = u, loc_range = sym_range sy\<rparr> \<in> set (line_references u word lines i)"
      by (simp add: line_references_def)
    with i(1) show ?thesis by (auto simp: locations_def)
  qed
  show ?thesis
    unfolding lines_def [symmetric]
    using result member absent present some declared_line by blast
qed

lemma sample_references:
  "handleReferences sample_state (js ''file://defTest.js'') 2 16 =
     Some (Inr [\<lparr>loc_uri = js ''file://defTest.js'', loc_range = line_range 0 4 9\<rparr>,
          \<lparr>loc_uri = js ''file://defTest.js'', loc_range = line_range 2 14 19\<rparr>])"
proof -
  have doc: "documents sample_state (js ''file://defTest.js'') = Some sample_doc"
    by (simp add: sample_state_def)
  have ne: "js ''myVar'' \<noteq> []" by (simp add: js_def)
  have lines: "split_lines (getText sample_doc) =
     [js ''let myVar = 10;'', js ''function myFunc() {'', js ''  console.log(myVar);'', js ''}'']"
    by (simp add: sample_doc_def sample_lines)
  have upt4: "[0..<4] = [0, 1, 2, 3::nat]" by (simp add: upt_rec)
  have idx: "index_of (js ''let myVar = 10;'') (js ''myVar'') = Some 4"
    "index_of (js ''function myFunc() {'') (js ''myVar'') = None"
    "index_of (js ''  console.log(myVar);'') (js ''myVar'') = Some 14"
    "index_of (js ''}'') (js ''myVar'') = None"
    by (simp_all add: js_def)
  have len: "length (js ''myVar'') = 5" by (simp add: js_def)
  show ?thesis
    unfolding handleReferences_word [OF doc sample_word_use ne] lines
    by (simp add: upt4 line_references_def idx len numeral_2_eq_2)
qed

theorem references_first_per_line_witness:
  "documents sample_state (js ''file://defTest.js'') = Some sample_doc
   \<and> getWordAtPosition sample_doc 2 16 = Some (Inr (Some (js ''myVar'')))
   \<and> js ''myVar'' \<noteq> []
   \<and> handleReferences sample_state (js ''file://defTest.js'') 2 16 =
       Some (Inr [\<lparr>loc_uri = js ''file://defTest.js'', loc_range = line_range 0 4 9\<rparr>,
            \<lparr>loc_uri = js ''file://defTest.js'', loc_range = line_range 2 14 19\<rparr>])
   \<and> myVar_symbol \<in> set (scan_symbols (js ''file://defTest.js'') (getText sample_doc))
   \<and> sym_name myVar_symbol = js ''myVar''
   \<and> \<lparr>loc_uri = js ''file://defTest.js'', loc_range = sym_range myVar_symbol\<rparr>
       \<in> set [\<lparr>loc_uri = js ''file://defTest.js'', loc_range = line_range 0 4 9\<rparr>,
               \<lparr>loc_uri = js ''file://defTest.js'', loc_range = line_range 2 14 19\<rparr>]"
proof -
  have doc: "documents sample_state (js ''file://defTest.js'') = Some sample_doc"
    by (simp add: sample_state_def)
  have ne: "js ''myVar'' \<noteq> []" by (simp add: js_def)
  have declared_here:
    "myVar_symbol \<in> set (scan_symbols (js ''file://defTest.js'') (getText sample_doc))"
    "sym_name myVar_symbol = js ''myVar''"
    by (simp_all add: sample_doc_def sample_scan) (simp add: myVar_symbol_def)
  from references_first_per_line [OF doc sample_word_use ne] declared_here
  have "\<lparr>loc_uri = js ''file://defTest.js'', loc_range = sym_range myVar_symbol\<rparr>
      \<in> set [\<lparr>loc_uri = js ''file://defTest.js'', loc_range = line_range 0 4 9\<rparr>,
              \<lparr>loc_uri = js ''file://defTest.js'', loc_range = line_range 2 14 19\<rparr>]"
    unfolding sample_references by blast
  with doc sample_word_use ne sample_references declared_here show ?thesis by simp
qed

subsection \<open>Rename\<close>

lemma rename_loop_references:
  "rename_loop oldName newName lines i (map (edit_at newName) acc) =
     map (edit_at newName) (references_loop u oldName lines i acc)"
proof (induction u oldName lines i acc rule: references_loop.induct)
  case (1 u word lines i acc)
  show ?case
  proof (cases "i < length lines")
    case True
    show ?thesis
    proof (cases "indexOf (lines ! i) word = - 1")
      case absent: True
      with True "1.IH" [of "indexOf (lines ! i) word"] show ?thesis
        by (subst rename_loop.simps, subst references_loop.simps) (simp add: Let_def)
    next
      case present: False
      with True "1.IH" [of "indexOf (lines ! i) word"] show ?thesis
        by (subst rename_loop.simps, subst references_loop.simps)
           (simp add: Let_def edit_at_def [abs_def])
    qed
  next
    case False
    then show ?thesis
      by (subst rename_loop.simps, subst references_loop.simps) simp
  qed
qed

text \<open>
  C7.  When the document is known, the word at the position is a non-empty word and the
  new name is not empty, \<open>handleRenameRequest\<close> returns edits under the one identifier
  of the document, as many as \<open>handleReferences\<close> returns locations for the same
  position; the \<open>i\<close>-th edit has the range of the \<open>i\<close>-th location and the new name as
  its text.
\<close>

theorem rename_matches_references:
  "documents st u = Some doc \<Longrightarrow> getWordAtPosition doc ln character = Some (Inr (Some word)) \<Longrightarrow>
     word \<noteq> [] \<Longrightarrow> newName \<noteq> [] \<Longrightarrow>
     \<exists>locations edits.
       handleReferences st u ln character = Some (Inr locations)
       \<and> handleRenameRequest st u ln character (Some newName) =
           Some (Inr (Some \<lparr>changes = [(u, edits)]\<rparr>))
       \<and> length edits = length locations
       \<and> (\<forall>i<length edits. edit_range (edits ! i) = loc_range (locations ! i)
                            \<and> edit_newText (edits ! i) = newName)"
proof -
  assume doc: "documents st u = Some doc"
    and word: "getWordAtPosition doc ln character = Some (Inr (Some word))" "word \<noteq> []"
    and new: "newName \<noteq> []"
  define locations where
    "locations = references_loop u word (split_lines (getText doc)) 0 []"
  define edits where "edits = rename_loop word newName (split_lines (getText doc)) 0 []"
  have refs: "handleReferences st u ln character = Some (Inr locations)"
    using doc word by (simp add: handleReferences_def locations_def)
  have rename: "handleRenameRequest st u ln character (Some newName) =
      Some (Inr (Some \<lparr>changes = [(u, edits)]\<rparr>))"
    using doc word new by (simp add: handleRenameRequest_def edits_def)
  have "edits = map (edit_at newName) locations"
    using rename_loop_references [of word newName "split_lines (getText doc)" 0 "[]" u]
    by (simp add: edits_def locations_def)
  then have "length edits = length locations"
    "\<forall>i<length edits. edit_range (edits ! i) = loc_range (locations ! i)
        \<and> edit_newText (edits ! i) = newName"
    by (simp_all add: edit_at_def)
  with refs rename show ?thesis by blast
qed

lemma sample_rename:
  "handleRenameRequest sample_state (js ''file://defTest.js'') 2 16 (Some (js ''newVar'')) =
     Some (Inr (Some \<lparr>changes = [(js ''file://defTest.js'',
       [\<lparr>edit_range = line_range 0 4 9, edit_newText = js ''newVar''\<rparr>,
        \<lparr>edit_range = line_range 2 14 19, edit_newText = js ''newVar''\<rparr>])]\<rparr>))"
proof -
  have doc: "documents sample_state (js ''file://defTest.js'') = Some sample_doc"
    by (simp add: sample_state_def)
  have ne: "js ''myVar'' \<noteq> []" "js ''newVar'' \<noteq> []" by (simp_all add: js_def)
  have refs: "references_loop (js ''file://defTest.js'') (js ''myVar'')
      (split_lines (getText sample_doc)) 0 [] =
      [\<lparr>loc_uri = js ''file://defTest.js'', loc_range = line_range 0 4 9\<rparr>,
       \<lparr>loc_uri = js ''file://defTest.js'', loc_range = line_range 2 14 19\<rparr>]"
    using sample_references doc sample_word_use ne(1) by (simp add: handleReferences_def)
  show ?thesis
    using doc sample_word_use ne
      rename_loop_references [of "js ''myVar''" "js ''newVar''"
        "split_lines (getText sample_doc)" 0 "[]" "js ''file://defTest.js''"]
    by (simp add: handleRenameRequest_def refs edit_at_def)
qed

theorem rename_matches_references_witness:
  "documents sample_state (js ''file://defTest.js'') = Some sample_doc
   \<and> getWordAtPosition sample_doc 2 16 = Some (Inr (Some (js ''myVar'')))
   \<and> js ''myVar'' \<noteq> [] \<and> js ''newVar'' \<noteq> []
   \<and> (\<exists>locations edits.
       handleReferences sample_state (js ''file://defTest.js'') 2 16 = Some (Inr locations)
       \<and> handleRenameRequest sample_state (js ''file://defTest.js'') 2 16 (Some (js ''newVar'')) =
           Some (Inr (Some \<lparr>changes = [(js ''file://defTest.js'', edits)]\<rparr>))
       \<and> length edits = 2 \<and> length locations = 2
       \<and> edit_range (edits ! 1) = loc_range (locations ! 1)
       \<and> edit_newText (edits ! 1) = js ''newVar'')"
proof -
  have doc: "documents sample_state (js ''file://defTest.js'') = Some sample_doc"
    by (simp add: sample_state_def)
  have ne: "js ''myVar'' \<noteq> []" "js ''newVar'' \<noteq> []" by (simp_all add: js_def)
  from rename_matches_references [OF doc sample_word_use ne]
  obtain locations edits where r:
    "handleReferences sample_state (js ''file://defTest.js'') 2 16 = Some (Inr locations)"
    "handleRenameRequest sample_state (js ''file://defTest.js'') 2 16 (Some (js ''newVar'')) =
       Some (Inr (Some \<lparr>changes = [(js ''file://defTest.js'', edits)]\<rparr>))"
    "length edits = length locations"
    "\<forall>i<length edits. edit_range (edits ! i) = loc_range (locations ! i)
        \<and> edit_newText (edits ! i) = js ''newVar''"
    by blast
  from r(1) have "length locations = 2" unfolding sample_references by auto
  with r doc sample_word_use ne show ?thesis by auto
qed

subsection \<open>Hover\<close>

lemma hover_loop_find:
  "hover_loop syms ln character =
     map_option hover_of (find (\<lambda>sy. isPositionInRange ln character (sym_range sy)) syms)"
  by (induction syms) simp_all

lemma hover_first_index:
  assumes "i < length syms" "isPositionInRange ln character (sym_range (syms ! i))"
    "\<forall>j<i. \<not> isPositionInRange ln character (sym_range (syms ! j))"
  shows "hover_loop syms ln character = Some (hover_of (syms ! i))"
proof -
  have "find (\<lambda>sy. isPositionInRange ln character (sym_range sy)) syms = Some (syms ! i)"
    unfolding find_Some_iff using assms by blast
  then show ?thesis by (simp add: hover_loop_find)
qed

lemma handleHover_own:
  "symbolTable st u = Some syms \<Longrightarrow>
     handleHover st u ln character = Inr (hover_loop syms ln character)"
  by (simp add: handleHover_def docSymbols_own)

lemma shadow_scan:
  "scan_symbols (js ''file://shadow.js'') (js ''let foo = function foo() {}'') =
     [foo_variable, foo_function]"
  by code_simp

text \<open>
  A symbol whose range is shared with an earlier symbol of the table is not the one
  \<open>handleHover\<close> reports at the ends of that range: parsing
  \<open>let foo = function foo() {}\<close> records a variable and a function with the same
  range, and at both ends of it the hover names the variable.
\<close>

theorem hover_reports_symbol_counterexample:
  "parseDocumentSymbols state0 shadow_doc = Inr shadow_state
   \<and> symbolTable shadow_state (js ''file://shadow.js'') = Some [foo_variable, foo_function]
   \<and> sym_range foo_function =
       \<lparr>range_start = \<lparr>pos_line = 0, pos_character = 4\<rparr>,
        range_end = \<lparr>pos_line = 0, pos_character = 7\<rparr>\<rparr>
   \<and> handleHover shadow_state (js ''file://shadow.js'') 0 7 = Inr (Some (hover_of foo_variable))
   \<and> handleHover shadow_state (js ''file://shadow.js'') 0 4 = Inr (Some (hover_of foo_variable))
   \<and> hover_of foo_variable \<noteq> hover_of foo_function"
proof -
  have parse: "parseDocumentSymbols state0 shadow_doc = Inr shadow_state"
    by (simp add: parseDocumentSymbols_scan shadow_doc_def shadow_scan state0_def
        shadow_state_def)
  have syms: "symbolTable shadow_state (js ''file://shadow.js'') =
      Some [foo_variable, foo_function]"
    by (simp add: shadow_state_def)
  have range: "sym_range foo_function =
       \<lparr>range_start = \<lparr>pos_line = 0, pos_character = 4\<rparr>,
        range_end = \<lparr>pos_line = 0, pos_character = 7\<rparr>\<rparr>"
    by (simp add: foo_function_def line_range_def)
  have hover:
    "handleHover shadow_state (js ''file://shadow.js'') 0 7 = Inr (Some (hover_of foo_variable))"
    "handleHover shadow_state (js ''file://shadow.js'') 0 4 = Inr (Some (hover_of foo_variable))"
    by (simp_all add: handleHover_own [OF syms] isPositionInRange_def foo_variable_def
        line_range_def)
  have differ: "hover_of foo_variable \<noteq> hover_of foo_function"
    by (simp add: hover_of_def foo_variable_def foo_function_def js_def)
  from parse syms range hover differ show ?thesis by simp
qed

text \<open>
  C9, with the order of the table.  For a symbol of the table whose range runs on one
  line from \<open>s\<close> to \<open>e\<close>, \<open>s \<le> e\<close>, both ends are inside the range, so
  \<open>handleHover\<close> at either end has an answer: it reports the first symbol of the table
  whose range holds the position, which is the symbol itself whenever no symbol before
  it in the table holds the position.
\<close>

theorem hover_inclusive_ends:
  "symbolTable st u = Some syms \<Longrightarrow> sy \<in> set syms \<Longrightarrow>
   sym_range sy = \<lparr>range_start = \<lparr>pos_line = l, pos_character = s\<rparr>,
                   range_end = \<lparr>pos_line = l, pos_character = e\<rparr>\<rparr> \<Longrightarrow>
   s \<le> e \<Longrightarrow> character = s \<or> character = e \<Longrightarrow>
     isPositionInRange l character (sym_range sy)
   \<and> (\<exists>i<length syms.
        isPositionInRange l character (sym_range (syms ! i))
        \<and> (\<forall>j<i. \<not> isPositionInRange l character (sym_range (syms ! j)))
        \<and> handleHover st u l character = Inr (Some (hover_of (syms ! i))))
   \<and> (\<forall>i<length syms.
        syms ! i = sy
        \<and> (\<forall>j<i. \<not> isPositionInRange l character (sym_range (syms ! j)))
        \<longrightarrow> handleHover st u l character = Inr (Some (hover_of sy)))"
proof -
  assume table: "symbolTable st u = Some syms" and member: "sy \<in> set syms"
    and range: "sym_range sy = \<lparr>range_start = \<lparr>pos_line = l, pos_character = s\<rparr>,
                   range_end = \<lparr>pos_line = l, pos_character = e\<rparr>\<rparr>"
    and order: "s \<le> e" and at_end: "character = s \<or> character = e"
  define inside where "inside = (\<lambda>x::symbol. isPositionInRange l character (sym_range x))"
  have here: "inside sy"
    using range order at_end by (auto simp: inside_def isPositionInRange_def)
  then have "\<exists>x. find inside syms = Some x"
    using member by (cases "find inside syms") (auto simp: find_None_iff)
  then obtain i where i: "i < length syms" "inside (syms ! i)" "\<forall>j<i. \<not> inside (syms ! j)"
    unfolding find_Some_iff by blast
  then have "hover_loop syms l character = Some (hover_of (syms ! i))"
    unfolding inside_def by (rule hover_first_index)
  then have first: "handleHover st u l character = Inr (Some (hover_of (syms ! i)))"
    by (simp add: handleHover_own [OF table])
  have own: "handleHover st u l character = Inr (Some (hover_of sy))"
    if "k < length syms" "syms ! k = sy" "\<forall>j<k. \<not> inside (syms ! j)" for k
  proof -
    have "hover_loop syms l character = Some (hover_of (syms ! k))"
      using that here unfolding inside_def by (intro hover_first_index) simp_all
    with that(2) show ?thesis by (simp add: handleHover_own [OF table])
  qed
  show ?thesis
    using here i first own unfolding inside_def by blast
qed

theorem hover_inclusive_ends_witness:
  "symbolTable sample_state (js ''file://defTest.js'') = Some [myVar_symbol, myFunc_symbol]
   \<and> myVar_symbol \<in> set [myVar_symbol, myFunc_symbol]
   \<and> sym_range myVar_symbol = \<lparr>range_start = \<lparr>pos_line = 0, pos_character = 4\<rparr>,
                               range_end = \<lparr>pos_line = 0, pos_character = 9\<rparr>\<rparr>
   \<and> (4::int) \<le> 9
   \<and> [myVar_symbol, myFunc_symbol] ! 0 = myVar_symbol
   \<and> isPositionInRange 0 9 (sym_range myVar_symbol)
   \<and> handleHover sample_state (js ''file://defTest.js'') 0 9 = Inr (Some (hover_of myVar_symbol))
   \<and> handleHover sample_state (js ''file://defTest.js'') 0 4 = Inr (Some (hover_of myVar_symbol))"
proof -
  have table: "symbolTable sample_state (js ''file://defTest.js'') =
      Some [myVar_symbol, myFunc_symbol]"
    by (simp add: sample_state_def)
  have member: "myVar_symbol \<in> set [myVar_symbol, myFunc_symbol]"
    by simp
  have range: "sym_range myVar_symbol = \<lparr>range_start = \<lparr>pos_line = 0, pos_character = 4\<rparr>,
                               range_end = \<lparr>pos_line = 0, pos_character = 9\<rparr>\<rparr>"
    by (simp add: myVar_symbol_def line_range_def)
  have first: "[myVar_symbol, myFunc_symbol] ! 0 = myVar_symbol"
    "(0::nat) < length [myVar_symbol, myFunc_symbol]"
    by simp_all
  have le: "(4::int) \<le> 9" by simp
  from hover_inclusive_ends [OF table member range le, of 9] first
  have at_end: "isPositionInRange 0 9 (sym_range myVar_symbol)
      \<and> handleHover sample_state (js ''file://defTest.js'') 0 9 =
          Inr (Some (hover_of myVar_symbol))"
    by (metis not_less_zero)
  from hover_inclusive_ends [OF table member range le, of 4] first
  have at_start:
      "handleHover sample_state (js ''file://defTest.js'') 0 4 =
         Inr (Some (hover_of myVar_symbol))"
    by (metis not_less_zero)
  from table member range first at_end at_start show ?thesis by simp
qed

subsection \<open>Documents the manager does not hold\<close>

lemma handleHover_documents:
  "handleHover (st\<lparr>documents := docs, sent := out\<rparr>) u ln character =
     handleHover st u ln character"
  by (simp add: handleHover_def docSymbols_def table_get_def split: option.splits)

text \<open>
  C10.  For an identifier the manager holds no document for, at any position and with
  any table in place of the state's, \<open>handleDefinition\<close> and \<open>handleRenameRequest\<close>
  answer \<open>null\<close> and \<open>handleReferences\<close> answers the empty list.  \<open>handleHover\<close>
  does not depend on the documents: it reads the table only, and reports the first
  symbol of the identifier's entry when the position is inside its range.
\<close>

theorem unknown_document:
  "documents st u = None \<Longrightarrow>
     (\<forall>tbl. handleDefinition (st\<lparr>symbolTable := tbl\<rparr>) u ln character = Some (Inr None)
          \<and> handleRenameRequest (st\<lparr>symbolTable := tbl\<rparr>) u ln character newName
              = Some (Inr None)
          \<and> handleReferences (st\<lparr>symbolTable := tbl\<rparr>) u ln character = Some (Inr []))
   \<and> handleDefinition st u ln character = Some (Inr None)
   \<and> handleRenameRequest st u ln character newName = Some (Inr None)
   \<and> handleReferences st u ln character = Some (Inr [])
   \<and> (\<forall>docs out. handleHover (st\<lparr>documents := docs, sent := out\<rparr>) u ln character
          = handleHover st u ln character)
   \<and> (\<forall>sy rest. symbolTable st u = Some (sy # rest)
          \<and> isPositionInRange ln character (sym_range sy)
          \<longrightarrow> handleHover st u ln character = Inr (Some (hover_of sy)))"
  by (simp add: handleDefinition_def handleRenameRequest_def handleReferences_def
      handleHover_documents handleHover_own)

theorem unknown_document_witness:
  "documents closed_state (js ''file://defTest.js'') = None
   \<and> symbolTable closed_state (js ''file://defTest.js'') = Some [myVar_symbol, myFunc_symbol]
   \<and> isPositionInRange 0 6 (sym_range myVar_symbol)
   \<and> handleDefinition closed_state (js ''file://defTest.js'') 0 6 = Some (Inr None)
   \<and> handleRenameRequest closed_state (js ''file://defTest.js'') 0 6 (Some (js ''newVar''))
       = Some (Inr None)
   \<and> handleReferences closed_state (js ''file://defTest.js'') 0 6 = Some (Inr [])
   \<and> handleHover closed_state (js ''file://defTest.js'') 0 6 =
       Inr (Some (hover_of myVar_symbol))"
proof -
  have none: "documents closed_state (js ''file://defTest.js'') = None"
    by (simp add: closed_state_def)
  have table: "symbolTable closed_state (js ''file://defTest.js'') =
      Some [myVar_symbol, myFunc_symbol]"
    by (simp add: closed_state_def)
  have inside: "isPositionInRange 0 6 (sym_range myVar_symbol)"
    by (simp add: isPositionInRange_def myVar_symbol_def line_range_def)
  from unknown_document [OF none, of 0 6 "Some (js ''newVar'')"] table inside
  show ?thesis using none by simp
qed

subsection \<open>Which calls return\<close>

lemma handleHover_returns:
  assumes "(\<exists>syms. symbolTable st u = Some syms)
     \<or> (symbolTable st (js ''__proto__'') = None \<and> u \<notin> set object_prototype_names)"
  shows "\<exists>h. handleHover st u ln character = Inr h"
proof (cases "symbolTable st u")
  case (Some syms)
  then show ?thesis by (simp add: handleHover_own)
next
  case None
  with assms have "docSymbols st u = Inr []" by (simp add: docSymbols_plain)
  then show ?thesis by (simp add: handleHover_def)
qed

lemma sample_text_length: "length (getText sample_doc) < 2 ^ 53"
  by (simp add: sample_doc_def sample_text_def js_def)

lemma sample_word_let_references:
  "handleReferences sample_state (js ''file://defTest.js'') 0 (- 1) =
     Some (Inr [\<lparr>loc_uri = js ''file://defTest.js'', loc_range = line_range 0 0 3\<rparr>])"
proof -
  have doc: "documents sample_state (js ''file://defTest.js'') = Some sample_doc"
    by (simp add: sample_state_def)
  have ne: "js ''let'' \<noteq> []" by (simp add: js_def)
  have lines: "split_lines (getText sample_doc) =
     [js ''let myVar = 10;'', js ''function myFunc() {'', js ''  console.log(myVar);'', js ''}'']"
    by (simp add: sample_doc_def sample_lines)
  have upt4: "[0..<4] = [0, 1, 2, 3::nat]" by (simp add: upt_rec)
  have idx: "index_of (js ''let myVar = 10;'') (js ''let'') = Some 0"
    "index_of (js ''function myFunc() {'') (js ''let'') = None"
    "index_of (js ''  console.log(myVar);'') (js ''let'') = None"
    "index_of (js ''}'') (js ''let'') = None"
    by (simp_all add: js_def)
  have len: "length (js ''let'') = 3" by (simp add: js_def)
  show ?thesis
    unfolding handleReferences_word [OF doc sample_word_negative_character ne] lines
    by (simp add: upt4 line_references_def idx len)
qed

lemma sample_word_let_rename:
  "handleRenameRequest sample_state (js ''file://defTest.js'') 0 (- 1) (Some (js ''x'')) =
     Some (Inr (Some \<lparr>changes = [(js ''file://defTest.js'',
       [\<lparr>edit_range = line_range 0 0 3, edit_newText = js ''x''\<rparr>])]\<rparr>))"
proof -
  have doc: "documents sample_state (js ''file://defTest.js'') = Some sample_doc"
    by (simp add: sample_state_def)
  have ne: "js ''let'' \<noteq> []" "js ''x'' \<noteq> []" by (simp_all add: js_def)
  have refs: "references_loop (js ''file://defTest.js'') (js ''let'')
      (split_lines (getText sample_doc)) 0 [] =
      [\<lparr>loc_uri = js ''file://defTest.js'', loc_range = line_range 0 0 3\<rparr>]"
    using sample_word_let_references doc sample_word_negative_character ne(1)
    by (simp add: handleReferences_def)
  show ?thesis
    using doc sample_word_negative_character ne
      rename_loop_references [of "js ''let''" "js ''x''"
        "split_lines (getText sample_doc)" 0 "[]" "js ''file://defTest.js''"]
    by (simp add: handleRenameRequest_def refs edit_at_def)
qed

lemma sample_word_let_definition:
  "handleDefinition sample_state (js ''file://defTest.js'') 0 (- 1) = Some (Inr None)"
proof -
  have doc: "documents sample_state (js ''file://defTest.js'') = Some sample_doc"
    by (simp add: sample_state_def)
  have ne: "js ''let'' \<noteq> []" by (simp add: js_def)
  have read: "docSymbols sample_state (js ''file://defTest.js'') =
      Inr [myVar_symbol, myFunc_symbol]"
    by (rule docSymbols_own) (simp add: sample_state_def)
  show ?thesis
    unfolding handleDefinition_word [OF doc sample_word_negative_character ne read]
    by (simp add: myVar_symbol_def myFunc_symbol_def js_def)
qed

text \<open>
  Not every call returns normally.  At a negative line of a known document the word
  extraction raises, and so do the three handlers that call it; at the character
  \<open>-10^17\<close> of a line the word extraction does not return, and neither does a handler
  that calls it; and \<open>handleHover\<close> raises for an identifier that names an inherited
  property of the table object and has no entry.
\<close>

theorem handlers_raise_counterexample:
  "documents sample_state (js ''file://defTest.js'') = Some sample_doc
   \<and> getWordAtPosition sample_doc (- 1) 0 = Some (Inl TypeError)
   \<and> handleDefinition sample_state (js ''file://defTest.js'') (- 1) 0 = Some (Inl TypeError)
   \<and> handleReferences sample_state (js ''file://defTest.js'') (- 1) 0 = Some (Inl TypeError)
   \<and> handleRenameRequest sample_state (js ''file://defTest.js'') (- 1) 0 (Some (js ''x''))
       = Some (Inl TypeError)
   \<and> getWordAtPosition sample_doc 0 (- 100000000000000000) = None
   \<and> handleReferences sample_state (js ''file://defTest.js'') 0 (- 100000000000000000) = None
   \<and> handleHover state0 (js ''constructor'') 0 0 = Inl TypeError"
proof -
  have doc: "documents sample_state (js ''file://defTest.js'') = Some sample_doc"
    by (simp add: sample_state_def)
  have raised: "handleDefinition sample_state (js ''file://defTest.js'') (- 1) 0 =
      Some (Inl TypeError)"
    "handleReferences sample_state (js ''file://defTest.js'') (- 1) 0 = Some (Inl TypeError)"
    "handleRenameRequest sample_state (js ''file://defTest.js'') (- 1) 0 (Some (js ''x''))
       = Some (Inl TypeError)"
    using doc sample_word_negative_line
    by (simp_all add: handleDefinition_def handleReferences_def handleRenameRequest_def)
  have "(0::nat) < length (split_lines (getText sample_doc))"
    by (simp add: sample_doc_def sample_lines)
  from getWordAtPosition_diverges [OF this]
  have hangs: "getWordAtPosition sample_doc 0 (- 100000000000000000) = None"
    by simp
  then have hangs_too:
    "handleReferences sample_state (js ''file://defTest.js'') 0 (- 100000000000000000) = None"
    using doc by (simp add: handleReferences_def)
  have "docSymbols state0 (js ''constructor'') = Inl TypeError"
    by (rule docSymbols_inherited) (simp_all add: state0_def constructor_inherited)
  then have hover: "handleHover state0 (js ''constructor'') 0 0 = Inl TypeError"
    by (simp add: handleHover_def)
  from doc sample_word_negative_line raised hangs hangs_too hover show ?thesis by simp
qed

text \<open>
  C8, for lines from 0 on, characters from \<open>-2^53\<close> on and a table that answers for the
  identifier with an array or with nothing.  A text has fewer than \<open>2^53\<close> code units,
  as every string has.  \<open>handleHover\<close> returns, at any position, when the identifier
  has an entry in the table, or has none and names no inherited property of the table
  object.  At a line from 0 on and a character from \<open>-2^53\<close> on, the word extraction
  returns, \<open>handleReferences\<close> and \<open>handleRenameRequest\<close> return for any identifier and
  new name, and \<open>handleDefinition\<close> returns under the condition of \<open>handleHover\<close>.
  Parsing returns a state for every document and state; the diagnostics are the value
  computed line by line, for every text, with the list sent to the client; and an empty
  text gives an empty entry of the table and no diagnostics.
\<close>

theorem handlers_return:
  "((\<exists>syms. symbolTable st u = Some syms)
      \<or> (symbolTable st (js ''__proto__'') = None \<and> u \<notin> set object_prototype_names)
     \<longrightarrow> (\<exists>h. handleHover st u ln character = Inr h))
   \<and> (0 \<le> ln \<and> - (2 ^ 53) \<le> character \<longrightarrow>
        (length (getText textDocument) < 2 ^ 53
           \<longrightarrow> (\<exists>word. getWordAtPosition textDocument ln character = Some (Inr word)))
      \<and> ((\<forall>doc. documents st u = Some doc \<longrightarrow> length (getText doc) < 2 ^ 53) \<longrightarrow>
            (\<exists>locations. handleReferences st u ln character = Some (Inr locations))
          \<and> (\<exists>edit. handleRenameRequest st u ln character newName = Some (Inr edit))
          \<and> ((\<exists>syms. symbolTable st u = Some syms)
                \<or> (symbolTable st (js ''__proto__'') = None
                    \<and> u \<notin> set object_prototype_names)
               \<longrightarrow> (\<exists>result. handleDefinition st u ln character = Some (Inr result)))))
   \<and> (\<exists>st'. parseDocumentSymbols st textDocument = Inr st')
   \<and> validateTextDocument st textDocument =
       (concat (map (line_diagnostics (split_lines (getText textDocument)))
                    [0..<length (split_lines (getText textDocument))]),
        st\<lparr>sent := sent st @
              [(doc_uri textDocument,
                concat (map (line_diagnostics (split_lines (getText textDocument)))
                            [0..<length (split_lines (getText textDocument))]))]\<rparr>)
   \<and> (getText textDocument = [] \<longrightarrow>
        parseDocumentSymbols st textDocument =
          Inr (st\<lparr>symbolTable := (symbolTable st)(doc_uri textDocument \<mapsto> [])\<rparr>)
        \<and> fst (validateTextDocument st textDocument) = [])"
proof -
  have hover: "\<exists>h. handleHover st u ln character = Inr h"
    if "(\<exists>syms. symbolTable st u = Some syms)
      \<or> (symbolTable st (js ''__proto__'') = None \<and> u \<notin> set object_prototype_names)"
    using that by (rule handleHover_returns)
  have word: "\<exists>word. getWordAtPosition doc ln character = Some (Inr word)"
    if "0 \<le> ln" "- (2 ^ 53) \<le> character" "length (getText doc) < 2 ^ 53" for doc
    using that(3,1,2) by (rule getWordAtPosition_returns)
  have refs: "\<exists>locations. handleReferences st u ln character = Some (Inr locations)"
    if pos: "0 \<le> ln" "- (2 ^ 53) \<le> character"
      and len: "\<forall>doc. documents st u = Some doc \<longrightarrow> length (getText doc) < 2 ^ 53"
  proof (cases "documents st u")
    case None
    then show ?thesis by (simp add: handleReferences_def)
  next
    case (Some doc)
    with word [OF pos, of doc] len show ?thesis
      by (auto simp: handleReferences_def split: option.splits)
  qed
  have rename: "\<exists>edit. handleRenameRequest st u ln character newName = Some (Inr edit)"
    if pos: "0 \<le> ln" "- (2 ^ 53) \<le> character"
      and len: "\<forall>doc. documents st u = Some doc \<longrightarrow> length (getText doc) < 2 ^ 53"
  proof (cases "documents st u")
    case None
    then show ?thesis by (simp add: handleRenameRequest_def)
  next
    case (Some doc)
    with word [OF pos, of doc] len show ?thesis
      by (auto simp: handleRenameRequest_def split: option.splits)
  qed
  have defn: "\<exists>result. handleDefinition st u ln character = Some (Inr result)"
    if pos: "0 \<le> ln" "- (2 ^ 53) \<le> character"
      and len: "\<forall>doc. documents st u = Some doc \<longrightarrow> length (getText doc) < 2 ^ 53"
      and table: "(\<exists>syms. symbolTable st u = Some syms)
        \<or> (symbolTable st (js ''__proto__'') = None \<and> u \<notin> set object_prototype_names)"
  proof (cases "documents st u")
    case None
    then show ?thesis by (simp add: handleDefinition_def)
  next
    case (Some doc)
    from table obtain syms where read: "docSymbols st u = Inr syms"
      using docSymbols_own docSymbols_plain by (cases "symbolTable st u") auto
    from word [OF pos, of doc] len Some obtain w where
      w: "getWordAtPosition doc ln character = Some (Inr w)"
      by auto
    show ?thesis
      using Some w read by (auto simp: handleDefinition_def split: option.splits)
  qed
  have parse: "\<exists>st'. parseDocumentSymbols st textDocument = Inr st'"
    by (simp add: parseDocumentSymbols_scan)
  have validate: "validateTextDocument st textDocument =
       (concat (map (line_diagnostics (split_lines (getText textDocument)))
                    [0..<length (split_lines (getText textDocument))]),
        st\<lparr>sent := sent st @
              [(doc_uri textDocument,
                concat (map (line_diagnostics (split_lines (getText textDocument)))
                            [0..<length (split_lines (getText textDocument))]))]\<rparr>)"
    by (simp add: validateTextDocument_def Let_def validate_loop_concat)
  have empty: "parseDocumentSymbols st textDocument =
          Inr (st\<lparr>symbolTable := (symbolTable st)(doc_uri textDocument \<mapsto> [])\<rparr>)
        \<and> fst (validateTextDocument st textDocument) = []"
    if empty: "getText textDocument = []"
  proof -
    have "match_first varRegex [] = None" "match_first funcRegex [] = None"
      by (simp_all add: match_first_def varRegex_def funcRegex_def at_boundary_def js_def)
    then have "scan_symbols (doc_uri textDocument) [] = []"
      by (simp add: scan_symbols_def line_symbols_def shape_symbols_def)
    moreover have "validate_loop [[]] 0 [] = []"
      by (simp add: validate_loop_concat line_diagnostics_def)
    ultimately show ?thesis
      using empty by (simp add: parseDocumentSymbols_scan validateTextDocument_def)
  qed
  from hover word refs rename defn parse validate empty show ?thesis
    by (intro conjI impI) blast+
qed

theorem handlers_return_witness:
  "(0::int) \<le> 0 \<and> - (2 ^ 53) \<le> (- 1::int)
   \<and> length (getText sample_doc) < 2 ^ 53
   \<and> documents sample_state (js ''file://defTest.js'') = Some sample_doc
   \<and> symbolTable sample_state (js ''file://defTest.js'') = Some [myVar_symbol, myFunc_symbol]
   \<and> getWordAtPosition sample_doc 0 (- 1) = Some (Inr (Some (js ''let'')))
   \<and> handleHover sample_state (js ''file://defTest.js'') 0 (- 1) = Inr None
   \<and> handleDefinition sample_state (js ''file://defTest.js'') 0 (- 1) = Some (Inr None)
   \<and> handleReferences sample_state (js ''file://defTest.js'') 0 (- 1) =
       Some (Inr [\<lparr>loc_uri = js ''file://defTest.js'', loc_range = line_range 0 0 3\<rparr>])
   \<and> handleRenameRequest sample_state (js ''file://defTest.js'') 0 (- 1) (Some (js ''x'')) =
       Some (Inr (Some \<lparr>changes = [(js ''file://defTest.js'',
         [\<lparr>edit_range = line_range 0 0 3, edit_newText = js ''x''\<rparr>])]\<rparr>))
   \<and> (\<exists>st'. parseDocumentSymbols sample_state sample_doc = Inr st')"
proof -
  have doc: "documents sample_state (js ''file://defTest.js'') = Some sample_doc"
    by (simp add: sample_state_def)
  have table: "symbolTable sample_state (js ''file://defTest.js'') =
      Some [myVar_symbol, myFunc_symbol]"
    by (simp add: sample_state_def)
  have hover: "handleHover sample_state (js ''file://defTest.js'') 0 (- 1) = Inr None"
    by (simp add: handleHover_own [OF table] isPositionInRange_def myVar_symbol_def
        myFunc_symbol_def line_range_def)
  from handlers_return [of sample_state "js ''file://defTest.js''" 0 "- 1" sample_doc
      "Some (js ''x'')"]
  have "\<exists>st'. parseDocumentSymbols sample_state sample_doc = Inr st'"
    by blast
  with doc table hover sample_text_length sample_word_negative_character
    sample_word_let_definition sample_word_let_references sample_word_let_rename
  show ?thesis by simp
qed

end
